theory Spec2Isabelle
  imports Complex_Main "HOL-Library.Stream"
begin

section \<open>Timetabling by simulated annealing: the optimisation engine of main.py\<close>

text \<open>
  The engine of \<^verbatim>\<open>main.py\<close> is \<^verbatim>\<open>parse_slot\<close>, \<^verbatim>\<open>refresh_caches\<close>,
  \<^verbatim>\<open>cost_function\<close>, \<^verbatim>\<open>random_solution\<close>, \<^verbatim>\<open>neighbor_solution\<close>,
  \<^verbatim>\<open>simulated_annealing\<close> and the guard of \<^verbatim>\<open>generate_timetable\<close>.
  They communicate through module-level globals, which are gathered in one record
  that every function takes and, where it writes a global, returns.

  Conventions of the embedding.
  \<^item> Python strings are \<open>string\<close>; a character is a code point below 256.
  \<^item> Python integers are \<open>int\<close>. A float is the real number it stands for: a float
    literal is the double nearest to the decimal written, given exactly as a fraction,
    and a comparison of two floats is the comparison of these reals. The operations
    that round (conversion from \<^verbatim>\<open>int\<close>, product, quotient, exponential) are used by
    \<^verbatim>\<open>simulated_annealing\<close> only and are a parameter of its model.
  \<^item> A raised exception is the \<open>Inl\<close> branch of a sum.
  \<^item> The process-wide random generator is a stream of natural numbers; each library
    call consumes entries from its head.
\<close>

subsection \<open>Exceptions\<close>

datatype error = ValueError | IndexError | ZeroDivisionError | UnboundLocalError

subsection \<open>Library: \<^verbatim>\<open>str.split\<close> and \<^verbatim>\<open>int\<close>\<close>

text \<open>\<^verbatim>\<open>s.split(c)\<close> for a one-character separator: every occurrence splits, empty
  pieces are kept, and the result is never empty.\<close>

fun split_char :: "char \<Rightarrow> string \<Rightarrow> string list" where
  "split_char c [] = [[]]"
| "split_char c (x # xs) =
     (if x = c then [] # split_char c xs
      else (x # hd (split_char c xs)) # tl (split_char c xs))"

text \<open>\<^verbatim>\<open>s.split(c, 1)\<close>: at most one split, at the first occurrence.\<close>

definition split_once :: "char \<Rightarrow> string \<Rightarrow> string list" where
  "split_once c s =
     (if c \<in> set s
      then [takeWhile (\<lambda>x. x \<noteq> c) s, tl (dropWhile (\<lambda>x. x \<noteq> c) s)]
      else [s])"

text \<open>The characters \<^verbatim>\<open>int\<close> skips around a literal: tab, line feed, vertical tab,
  form feed, carriage return, space, NEL and the no-break space.\<close>

definition py_isspace :: "char \<Rightarrow> bool" where
  "py_isspace ch \<longleftrightarrow> of_char ch \<in> {9, 10, 11, 12, 13, 32, 133, 160 :: nat}"

definition py_isdigit :: "char \<Rightarrow> bool" where
  "py_isdigit ch \<longleftrightarrow> 48 \<le> (of_char ch :: nat) \<and> (of_char ch :: nat) \<le> 57"

definition digit_val :: "char \<Rightarrow> int" where
  "digit_val ch = int (of_char ch) - 48"

definition py_strip :: "string \<Rightarrow> string" where
  "py_strip s = rev (dropWhile py_isspace (rev (dropWhile py_isspace s)))"

text \<open>Underscores may separate digits: never first, never last, never doubled.\<close>

fun digits_ok :: "string \<Rightarrow> bool" where
  "digits_ok [] = False"
| "digits_ok [d] = py_isdigit d"
| "digits_ok (d # u # rest) =
     (py_isdigit d \<and>
      (if u = CHR ''_'' then digits_ok rest else digits_ok (u # rest)))"

definition max_str_digits :: nat where
  "max_str_digits = 4300"

definition decimal_value :: "string \<Rightarrow> int" where
  "decimal_value ds = foldl (\<lambda>acc d. acc * 10 + digit_val d) 0 ds"

text \<open>\<^verbatim>\<open>int(s)\<close> in base ten: \<open>None\<close> where Python raises \<^verbatim>\<open>ValueError\<close>. The
  interpreter refuses literals of more than \<open>max_str_digits\<close> digits.\<close>

definition py_unsigned :: "string \<Rightarrow> int option" where
  "py_unsigned body =
     (let ds = filter (\<lambda>ch. ch \<noteq> CHR ''_'') body
      in if digits_ok body \<and> length ds \<le> max_str_digits
         then Some (decimal_value ds) else None)"

definition py_int :: "string \<Rightarrow> int option" where
  "py_int s =
     (case py_strip s of
        [] \<Rightarrow> None
      | ch # rest \<Rightarrow>
          if ch = CHR ''+'' then py_unsigned rest
          else if ch = CHR ''-'' then map_option uminus (py_unsigned rest)
          else py_unsigned (ch # rest))"

subsection \<open>Globals\<close>

type_synonym assignment = "string \<times> string \<times> string"
type_synonym timetable = "assignment list"
type_synonym parsed_slot = "string \<times> int"

record weights =
  teacher_slot_conflict :: int
  room_slot_conflict :: int
  not_preferred :: int
  back_to_back :: int
  gap :: int
  too_many_sessions_day :: int
  missing_teacher :: int
  malformed_slot :: int

definition WEIGHTS :: weights where
  "WEIGHTS = \<lparr> teacher_slot_conflict = 20000, room_slot_conflict = 20000,
     not_preferred = 2, back_to_back = 1, gap = 1, too_many_sessions_day = 10,
     missing_teacher = 20000, malformed_slot = 20000 \<rparr>"

record globals =
  courses :: "string list"
  faculty :: "string \<rightharpoonup> string"
  rooms :: "string list"
  slots :: "string list"
  preferred_slots :: "string \<rightharpoonup> string list"
  requirements :: "string \<rightharpoonup> int"
  slot_parsed :: "string \<rightharpoonup> parsed_slot"
  course_teacher_cache :: "string \<rightharpoonup> string"
  weights :: weights

text \<open>\<^verbatim>\<open>d.get(k, "")\<close> on a dictionary of strings.\<close>

definition get_str :: "(string \<rightharpoonup> string) \<Rightarrow> string \<Rightarrow> string" where
  "get_str d k = (case d k of None \<Rightarrow> [] | Some v \<Rightarrow> v)"

subsection \<open>\<^verbatim>\<open>parse_slot\<close> and \<^verbatim>\<open>refresh_caches\<close>\<close>

text \<open>The body of \<^verbatim>\<open>parse_slot\<close> below the cache test. Both unpackings and both
  \<^verbatim>\<open>int\<close> calls raise \<^verbatim>\<open>ValueError\<close> and nothing else.\<close>

definition parse_label :: "string \<Rightarrow> error + parsed_slot" where
  "parse_label slot =
     (case split_once CHR '' '' slot of
        [day, time_range] \<Rightarrow>
          (let start_str = hd (split_char CHR ''-'' time_range)
           in case split_char CHR '':'' start_str of
                [h, m] \<Rightarrow>
                  (case (py_int h, py_int m) of
                     (Some hh, Some mm) \<Rightarrow> Inr (day, hh * 60 + mm)
                   | _ \<Rightarrow> Inl ValueError)
              | _ \<Rightarrow> Inl ValueError)
      | _ \<Rightarrow> Inl ValueError)"

definition parse_slot :: "globals \<Rightarrow> string \<Rightarrow> (error + parsed_slot) \<times> globals" where
  "parse_slot st slot =
     (case slot_parsed st slot of
        Some v \<Rightarrow> (Inr v, st)
      | None \<Rightarrow>
          (case parse_label slot of
             Inl e \<Rightarrow> (Inl e, st)
           | Inr v \<Rightarrow> (Inr v, st\<lparr>slot_parsed := (slot_parsed st)(slot \<mapsto> v)\<rparr>)))"

fun prime_slots :: "globals \<Rightarrow> string list \<Rightarrow> globals" where
  "prime_slots st [] = st"
| "prime_slots st (s # ss) = prime_slots (snd (parse_slot st s)) ss"

definition refresh_caches :: "globals \<Rightarrow> globals" where
  "refresh_caches st =
     (let st1 = st\<lparr>slot_parsed := Map.empty\<rparr>;
          st2 = prime_slots st1 (slots st1)
      in st2\<lparr>course_teacher_cache :=
               fold (\<lambda>c m. m(c \<mapsto> get_str (faculty st2) c)) (courses st2) Map.empty\<rparr>)"

text \<open>The slot cache is sound when every entry is what parsing its label gives. This
  holds of the empty cache and is kept by every function that writes the cache.\<close>

definition cache_sound :: "globals \<Rightarrow> bool" where
  "cache_sound st \<longleftrightarrow> (\<forall>s v. slot_parsed st s = Some v \<longrightarrow> parse_label s = Inr v)"

subsection \<open>Float literals\<close>

text \<open>The doubles denoted by the float literals of the source, each an integer over a
  power of two.\<close>

definition float_0_25 :: real where
  "float_0_25 = 1 / 2 ^ 2"

definition float_0_45 :: real where
  "float_0_45 = 8106479329266893 / 2 ^ 54"

definition float_0_7 :: real where
  "float_0_7 = 3152519739159347 / 2 ^ 52"

definition float_0_8 :: real where
  "float_0_8 = 3602879701896397 / 2 ^ 52"

definition float_0_85 :: real where
  "float_0_85 = 7656119366529843 / 2 ^ 53"

definition float_0_9997 :: real where
  "float_0_9997 = 4502248547482285 / 2 ^ 52"

definition float_1e_8 :: real where
  "float_1e_8 = 3022314549036573 / 2 ^ 78"

definition float_1e_9 :: real where
  "float_1e_9 = 4835703278458517 / 2 ^ 82"

subsection \<open>The random source\<close>

text \<open>The generator's state is the stream of numbers still to come. \<^verbatim>\<open>random.random()\<close>
  returns a double that is a multiple of \<open>2\<^sup>-\<^sup>5\<^sup>3\<close> in \<open>[0, 1)\<close>; \<^verbatim>\<open>random.choice\<close> raises
  \<^verbatim>\<open>IndexError\<close> on an empty sequence, before drawing; \<^verbatim>\<open>random.randrange(n)\<close>
  and \<^verbatim>\<open>random.sample(range(n), 2)\<close> raise \<^verbatim>\<open>ValueError\<close> when the range is too
  small.\<close>

type_synonym rng = "nat stream"

definition random_random :: "rng \<Rightarrow> real \<times> rng" where
  "random_random g = (real (shd g mod 2 ^ 53) / 2 ^ 53, stl g)"

definition random_choice :: "'a list \<Rightarrow> rng \<Rightarrow> (error + 'a) \<times> rng" where
  "random_choice xs g =
     (if xs = [] then (Inl IndexError, g)
      else (Inr (xs ! (shd g mod length xs)), stl g))"

definition random_randrange :: "nat \<Rightarrow> rng \<Rightarrow> (error + nat) \<times> rng" where
  "random_randrange n g =
     (if n = 0 then (Inl ValueError, g) else (Inr (shd g mod n), stl g))"

definition random_sample2 :: "nat \<Rightarrow> rng \<Rightarrow> (error + nat \<times> nat) \<times> rng" where
  "random_sample2 n g =
     (if n < 2 then (Inl ValueError, g)
      else (let i = shd g mod n; k = shd (stl g) mod (n - 1)
            in (Inr (i, if i \<le> k then k + 1 else k), stl (stl g))))"

subsection \<open>\<^verbatim>\<open>cost_function\<close>\<close>

text \<open>\<^verbatim>\<open>teacher in prefs and prefs[teacher]\<close> holds exactly when this list is not empty.\<close>

definition pref_list :: "globals \<Rightarrow> string \<Rightarrow> string list" where
  "pref_list st teacher = (case preferred_slots st teacher of None \<Rightarrow> [] | Some ps \<Rightarrow> ps)"

text \<open>A dictionary that keeps insertion order, as an association list:
  \<^verbatim>\<open>d[k] = f(d.setdefault(k, dflt))\<close>.\<close>

fun modify_default :: "'k \<Rightarrow> 'v \<Rightarrow> ('v \<Rightarrow> 'v) \<Rightarrow> ('k \<times> 'v) list \<Rightarrow> ('k \<times> 'v) list" where
  "modify_default k dflt f [] = [(k, f dflt)]"
| "modify_default k dflt f ((k', v) # kvs) =
     (if k = k' then (k', f v) # kvs else (k', v) # modify_default k dflt f kvs)"

type_synonym schedule = "(string \<times> (string \<times> int list) list) list"

definition sched_add :: "string \<Rightarrow> string \<Rightarrow> int \<Rightarrow> schedule \<Rightarrow> schedule" where
  "sched_add teacher day start_minutes sched =
     modify_default teacher [] (modify_default day [] (\<lambda>starts. starts @ [start_minutes])) sched"

record cost_acc =
  penalty :: int
  used_faculty :: "(string \<times> string) set"
  used_rooms :: "(string \<times> string) set"
  faculty_schedule :: schedule

text \<open>One round of the loop over the timetable. The two \<^verbatim>\<open>continue\<close> statements are the
  two early results.\<close>

fun cost_step :: "globals \<Rightarrow> cost_acc \<Rightarrow> assignment \<Rightarrow> cost_acc \<times> globals" where
  "cost_step st acc (course, slot, room) =
     (let w = weights st;
          teacher = get_str (course_teacher_cache st) course
      in if teacher = [] then (acc\<lparr>penalty := penalty acc + missing_teacher w\<rparr>, st)
         else
           let key_fac = (teacher, slot);
               acc1 = (if key_fac \<in> used_faculty acc
                       then acc\<lparr>penalty := penalty acc + teacher_slot_conflict w\<rparr>
                       else acc\<lparr>used_faculty := insert key_fac (used_faculty acc)\<rparr>);
               key_room = (room, slot);
               acc2 = (if key_room \<in> used_rooms acc1
                       then acc1\<lparr>penalty := penalty acc1 + room_slot_conflict w\<rparr>
                       else acc1\<lparr>used_rooms := insert key_room (used_rooms acc1)\<rparr>);
               acc3 = (if pref_list st teacher \<noteq> [] \<and> slot \<notin> set (pref_list st teacher)
                       then acc2\<lparr>penalty := penalty acc2 + not_preferred w\<rparr>
                       else acc2)
           in (case parse_slot st slot of
                 (Inl e, st') \<Rightarrow> (acc3\<lparr>penalty := penalty acc3 + malformed_slot w\<rparr>, st')
               | (Inr (day, start_minutes), st') \<Rightarrow>
                   (acc3\<lparr>faculty_schedule :=
                           sched_add teacher day start_minutes (faculty_schedule acc3)\<rparr>, st')))"

fun cost_loop :: "globals \<Rightarrow> cost_acc \<Rightarrow> timetable \<Rightarrow> cost_acc \<times> globals" where
  "cost_loop st acc [] = (acc, st)"
| "cost_loop st acc (a # tt) =
     (case cost_step st acc a of (acc', st') \<Rightarrow> cost_loop st' acc' tt)"

text \<open>The body of \<^verbatim>\<open>for i in range(1, n)\<close>.\<close>

definition pair_step :: "weights \<Rightarrow> int list \<Rightarrow> nat \<Rightarrow> int \<Rightarrow> int" where
  "pair_step w starts i p =
     (let diff = starts ! i - starts ! (i - 1)
      in if 0 < diff \<and> diff \<le> 60 then p + back_to_back w
         else if diff > 60 then p + gap w
         else p)"

text \<open>The body of \<^verbatim>\<open>for day, starts in days.items()\<close>.\<close>

definition day_penalty :: "weights \<Rightarrow> int list \<Rightarrow> int \<Rightarrow> int" where
  "day_penalty w starts0 p =
     (let starts = sort starts0;
          n = length starts;
          p1 = (if n \<ge> 5 then p + too_many_sessions_day w * (int n - 4) else p)
      in fold (pair_step w starts) [1..<n] p1)"

definition day_penalties :: "weights \<Rightarrow> schedule \<Rightarrow> int \<Rightarrow> int" where
  "day_penalties w sched p =
     fold (\<lambda>(teacher, days) p'. fold (\<lambda>(day, starts) p''. day_penalty w starts p'') days p')
       sched p"

definition cost_function :: "globals \<Rightarrow> timetable \<Rightarrow> int \<times> globals" where
  "cost_function st timetable =
     (case cost_loop st
             \<lparr>penalty = 0, used_faculty = {}, used_rooms = {}, faculty_schedule = []\<rparr>
             timetable of
        (acc, st') \<Rightarrow> (day_penalties (weights st) (faculty_schedule acc) (penalty acc), st'))"

subsection \<open>\<^verbatim>\<open>random_solution\<close>\<close>

text \<open>\<^verbatim>\<open>for _ in range(count)\<close>, with the timetable built so far.\<close>

fun session_loop ::
  "globals \<Rightarrow> string \<Rightarrow> nat \<Rightarrow> timetable \<Rightarrow> rng \<Rightarrow> (error + timetable) \<times> rng" where
  "session_loop st course 0 tt g = (Inr tt, g)"
| "session_loop st course (Suc n) tt g =
     (let teacher = get_str (faculty st) course
      in case (if pref_list st teacher \<noteq> []
               then (let (u, g') = random_random g
                     in if u < float_0_8 then random_choice (pref_list st teacher) g'
                        else random_choice (slots st) g')
               else random_choice (slots st) g) of
           (Inl e, g1) \<Rightarrow> (Inl e, g1)
         | (Inr slot, g1) \<Rightarrow>
             (case random_choice (rooms st) g1 of
                (Inl e, g2) \<Rightarrow> (Inl e, g2)
              | (Inr room, g2) \<Rightarrow> session_loop st course n (tt @ [(course, slot, room)]) g2))"

text \<open>\<^verbatim>\<open>requirements.get(course, 1)\<close>; \<^verbatim>\<open>range\<close> of a negative count is empty.\<close>

definition session_count :: "globals \<Rightarrow> string \<Rightarrow> nat" where
  "session_count st course = nat (case requirements st course of None \<Rightarrow> 1 | Some n \<Rightarrow> n)"

fun course_loop ::
  "globals \<Rightarrow> string list \<Rightarrow> timetable \<Rightarrow> rng \<Rightarrow> (error + timetable) \<times> rng" where
  "course_loop st [] tt g = (Inr tt, g)"
| "course_loop st (course # cs) tt g =
     (case session_loop st course (session_count st course) tt g of
        (Inl e, g') \<Rightarrow> (Inl e, g')
      | (Inr tt', g') \<Rightarrow> course_loop st cs tt' g')"

definition random_solution :: "globals \<Rightarrow> rng \<Rightarrow> (error + timetable) \<times> rng" where
  "random_solution st g = course_loop st (courses st) [] g"

subsection \<open>\<^verbatim>\<open>neighbor_solution\<close>, on a store of list objects\<close>

text \<open>A timetable is a Python list, a mutable object; its elements are tuples, which are
  immutable. The store holds the list objects; a reference is an index into it, and a
  new object gets the next free index. \<^verbatim>\<open>list(timetable)\<close> and \<^verbatim>\<open>[]\<close> create an
  object, \<^verbatim>\<open>new_tt[i] = v\<close> overwrites one element of an object.\<close>

type_synonym heap = "timetable list"
type_synonym ref = nat

definition heap_new :: "heap \<Rightarrow> timetable \<Rightarrow> ref \<times> heap" where
  "heap_new h xs = (length h, h @ [xs])"

definition heap_set :: "heap \<Rightarrow> ref \<Rightarrow> nat \<Rightarrow> assignment \<Rightarrow> heap" where
  "heap_set h p i v = h[p := (h ! p)[i := v]]"

definition neighbor_solution ::
  "globals \<Rightarrow> heap \<Rightarrow> ref \<Rightarrow> rng \<Rightarrow> (error + ref) \<times> heap \<times> rng" where
  "neighbor_solution st h timetable g =
     (if h ! timetable = [] then (let (p, h') = heap_new h [] in (Inr p, h', g))
      else
        (let (new_tt, h1) = heap_new h (h ! timetable);
             (move, g1) = random_random g;
             L = length (h1 ! new_tt)
         in if move < float_0_45 \<and> L \<ge> 2 then
              (case random_sample2 L g1 of
                 (Inl e, g2) \<Rightarrow> (Inl e, h1, g2)
               | (Inr (i, j), g2) \<Rightarrow>
                   (let (c1, s1, r1) = h1 ! new_tt ! i;
                        (c2, s2, r2) = h1 ! new_tt ! j;
                        (u, g3) = random_random g2
                    in if u < float_0_7
                       then (Inr new_tt,
                             heap_set (heap_set h1 new_tt i (c1, s2, r1)) new_tt j (c2, s1, r2),
                             g3)
                       else (Inr new_tt,
                             heap_set (heap_set h1 new_tt i (c2, s2, r2)) new_tt j (c1, s1, r1),
                             g3)))
            else if move < float_0_85 then
              (case random_randrange L g1 of
                 (Inl e, g2) \<Rightarrow> (Inl e, h1, g2)
               | (Inr idx, g2) \<Rightarrow>
                   (let (c, s, r) = h1 ! new_tt ! idx;
                        teacher = get_str (faculty st) c
                    in (case (if pref_list st teacher \<noteq> []
                              then (let (u, g') = random_random g2
                                    in if u < float_0_7 then random_choice (pref_list st teacher) g'
                                       else random_choice (slots st) g')
                              else random_choice (slots st) g2) of
                          (Inl e, g3) \<Rightarrow> (Inl e, h1, g3)
                        | (Inr new_slot, g3) \<Rightarrow>
                            (let (v, g4) = random_random g3
                             in if v < float_0_25
                                then (Inr new_tt, heap_set h1 new_tt idx (c, new_slot, r), g4)
                                else (case random_choice (rooms st) g4 of
                                        (Inl e, g5) \<Rightarrow> (Inl e, h1, g5)
                                      | (Inr room, g5) \<Rightarrow>
                                          (Inr new_tt,
                                           heap_set h1 new_tt idx (c, new_slot, room), g5))))))
            else
              (case random_randrange L g1 of
                 (Inl e, g2) \<Rightarrow> (Inl e, h1, g2)
               | (Inr idx, g2) \<Rightarrow>
                   (let (c, s, r) = h1 ! new_tt ! idx
                    in (case random_choice (rooms st) g2 of
                          (Inl e, g3) \<Rightarrow> (Inl e, h1, g3)
                        | (Inr room, g3) \<Rightarrow>
                            (Inr new_tt, heap_set h1 new_tt idx (c, s, room), g3))))))"

text \<open>The operator as the annealing loop uses it: the argument is the only object of the
  store, and the result is read back from the reference returned.\<close>

definition neighbor_value :: "globals \<Rightarrow> timetable \<Rightarrow> rng \<Rightarrow> (error + timetable) \<times> rng" where
  "neighbor_value st tt g =
     (case neighbor_solution st [tt] 0 g of
        (Inl e, h', g') \<Rightarrow> (Inl e, g')
      | (Inr p, h', g') \<Rightarrow> (Inr (h' ! p), g'))"

subsection \<open>\<^verbatim>\<open>simulated_annealing\<close>\<close>

text \<open>Drawing the chart changes no value of the search; of the \<^verbatim>\<open>live_plot\<close> code the
  model keeps the two places that can raise: the remainder by \<^verbatim>\<open>update_interval\<close>,
  and the use of \<^verbatim>\<open>it\<close> after a loop that never ran. The elapsed wall-clock time is
  left out of the result.

  The temperature is a float. What the platform computes for \<^verbatim>\<open>T * alpha\<close>,
  for the conversion of \<^verbatim>\<open>-delta\<close>, for the quotient and for \<^verbatim>\<open>math.exp\<close> is not
  fixed here: the four operations are a parameter of the model, and every statement
  about the search holds for all of them. \<open>exact_arith\<close> is the arithmetic without
  rounding.\<close>

record float_arith =
  float_of_int :: "int \<Rightarrow> real"
  float_mul :: "real \<Rightarrow> real \<Rightarrow> real"
  float_div :: "real \<Rightarrow> real \<Rightarrow> real"
  float_exp :: "real \<Rightarrow> real"

definition exact_arith :: float_arith where
  "exact_arith =
     \<lparr>float_of_int = real_of_int, float_mul = (*), float_div = (/), float_exp = exp\<rparr>"

record sa_params =
  max_iter :: int
  T0 :: real
  alpha :: real
  stop_if_zero :: bool
  live_plot :: bool
  update_interval :: "int option"

record history =
  iter :: "int list"
  current_cost :: "int list"
  best_cost :: "int list"

type_synonym sa_result = "timetable \<times> int \<times> history"

text \<open>The main loop; the first number counts the rounds \<^verbatim>\<open>range\<close> still has to give,
  \<open>it\<close> is the loop variable.\<close>

fun sa_loop ::
  "float_arith \<Rightarrow> sa_params \<Rightarrow> nat \<Rightarrow> int \<Rightarrow> globals \<Rightarrow> timetable \<Rightarrow> int \<Rightarrow>
   timetable \<Rightarrow> int \<Rightarrow> real \<Rightarrow> history \<Rightarrow> rng \<Rightarrow> (error + sa_result) \<times> globals \<times> rng" where
  "sa_loop fa p 0 it st current ccost best bcost T hist g = (Inr (best, bcost, hist), st, g)"
| "sa_loop fa p (Suc n) it st current ccost best bcost T hist g =
     (if T \<le> float_1e_8 then (Inr (best, bcost, hist), st, g)
      else
        (case neighbor_value st current g of
           (Inl e, g1) \<Rightarrow> (Inl e, st, g1)
         | (Inr neighbor, g1) \<Rightarrow>
             (let (neighbor_cost, st1) = cost_function st neighbor;
                  delta = neighbor_cost - ccost;
                  (accept, g2) =
                     (if delta < 0 then (True, g1)
                      else (let (u, g') = random_random g1
                            in (u < float_exp fa
                                      (float_div fa (float_of_int fa (- delta))
                                         (max T float_1e_9)), g')));
                  current' = (if accept then neighbor else current);
                  ccost' = (if accept then neighbor_cost else ccost);
                  improved = (accept \<and> neighbor_cost < bcost);
                  best' = (if improved then neighbor else best);
                  bcost' = (if improved then neighbor_cost else bcost);
                  hist' = \<lparr>iter = iter hist @ [it],
                           current_cost = current_cost hist @ [ccost'],
                           best_cost = best_cost hist @ [bcost']\<rparr>
              in if live_plot p \<and> update_interval p = Some 0
                 then (Inl ZeroDivisionError, st1, g2)
                 else if stop_if_zero p \<and> bcost' = 0
                 then (Inr (best', bcost', hist'), st1, g2)
                 else sa_loop fa p n (it + 1) st1 current' ccost' best' bcost'
                        (float_mul fa T (alpha p)) hist' g2)))"

definition simulated_annealing ::
  "float_arith \<Rightarrow> sa_params \<Rightarrow> globals \<Rightarrow> rng \<Rightarrow> (error + sa_result) \<times> globals \<times> rng" where
  "simulated_annealing fa p st g =
     (case random_solution st g of
        (Inl e, g1) \<Rightarrow> (Inl e, st, g1)
      | (Inr current, g1) \<Rightarrow>
          (let (ccost, st1) = cost_function st current
           in (case sa_loop fa p (nat (max_iter p)) 1 st1 current ccost current ccost
                       (T0 p) \<lparr>iter = [], current_cost = [], best_cost = []\<rparr> g1 of
                 (Inl e, st2, g2) \<Rightarrow> (Inl e, st2, g2)
               | (Inr r, st2, g2) \<Rightarrow>
                   if live_plot p \<and> max_iter p < 1 then (Inl UnboundLocalError, st2, g2)
                   else (Inr r, st2, g2))))"

subsection \<open>\<^verbatim>\<open>generate_timetable\<close>, up to the end of the search\<close>

datatype outcome = InputsMissing | Generated sa_result

definition generate_timetable ::
  "float_arith \<Rightarrow> globals \<Rightarrow> rng \<Rightarrow> (error + outcome) \<times> globals \<times> rng" where
  "generate_timetable fa st g =
     (if courses st = [] \<or> faculty st = Map.empty \<or> rooms st = [] \<or> slots st = []
      then (Inr InputsMissing, st, g)
      else
        (let st1 = st\<lparr>requirements := (\<lambda>c. if c \<in> set (courses st) then Some 2 else None)\<rparr>;
             st2 = refresh_caches st1
         in (case random_solution st2 g of
               (Inl e, g1) \<Rightarrow> (Inl e, st2, g1)
             | (Inr init_sol, g1) \<Rightarrow>
                 (let (init_cost, st3) = cost_function st2 init_sol
                  in (case simulated_annealing fa
                              \<lparr>max_iter = 120000, T0 = 500, alpha = float_0_9997,
                               stop_if_zero = True, live_plot = True,
                               update_interval = Some 50\<rparr> st3 g1 of
                        (Inl e, st4, g2) \<Rightarrow> (Inl e, st4, g2)
                      | (Inr r, st4, g2) \<Rightarrow> (Inr (Generated r), st4, g2))))))"

subsection \<open>The specification's wording, for comparison with the code\<close>

text \<open>The cardinality the specification promises for the generator: the sum of the
  required session counts, with 2 for a course that has no entry.\<close>

definition spec_cardinality :: "globals \<Rightarrow> nat" where
  "spec_cardinality st =
     sum_list (map (\<lambda>c. nat (case requirements st c of None \<Rightarrow> 2 | Some n \<Rightarrow> n)) (courses st))"

text \<open>The specification's rule for one consecutive pair at distance \<open>d\<close>, and for one
  (teacher, day) bucket: the surcharge for five or more sessions plus the rule at each
  consecutive pair of the sorted start minutes.\<close>

definition spec_pair_penalty :: "weights \<Rightarrow> int \<Rightarrow> int" where
  "spec_pair_penalty w d =
     (if 0 < d \<and> d \<le> 60 then back_to_back w else if d > 60 then gap w else 0)"

definition spec_bucket_penalty :: "weights \<Rightarrow> int list \<Rightarrow> int" where
  "spec_bucket_penalty w starts =
     (let sorted_starts = sort starts; n = length starts
      in (if n \<ge> 5 then too_many_sessions_day w * (int n - 4) else 0)
         + sum_list (map (\<lambda>(a, b). spec_pair_penalty w (b - a))
                         (zip sorted_starts (tl sorted_starts))))"

text \<open>The buckets of a schedule: the lists of start minutes, over all teachers and days.\<close>

definition buckets :: "schedule \<Rightarrow> int list list" where
  "buckets sched = map snd (concat (map snd sched))"

subsection \<open>Relations and invariants used in the proofs\<close>

text \<open>Two states of the globals that agree on everything but the contents of the slot
  cache.\<close>

definition same_but_slot_cache :: "globals \<Rightarrow> globals \<Rightarrow> bool" where
  "same_but_slot_cache st st' \<longleftrightarrow>
     courses st' = courses st \<and> faculty st' = faculty st \<and> rooms st' = rooms st \<and>
     slots st' = slots st \<and> preferred_slots st' = preferred_slots st \<and>
     requirements st' = requirements st \<and>
     course_teacher_cache st' = course_teacher_cache st \<and> weights st' = weights st"

text \<open>The invariant of the annealing loop at the top of round \<open>it\<close>: the history has one
  entry per finished round, numbered from 1, its best costs never increase, and the
  best cost in hand is at most each of them.\<close>

definition hist_inv :: "history \<Rightarrow> int \<Rightarrow> int \<Rightarrow> bool" where
  "hist_inv hist it bcost \<longleftrightarrow>
     1 \<le> it \<and> iter hist = map int [1..<nat it] \<and>
     length (best_cost hist) = length (iter hist) \<and>
     length (current_cost hist) = length (iter hist) \<and>
     sorted_wrt (\<ge>) (best_cost hist) \<and> (\<forall>x \<in> set (best_cost hist). bcost \<le> x)"

subsection \<open>Concrete inputs\<close>

text \<open>The globals as the module leaves them when it is loaded.\<close>

definition initial_globals :: globals where
  "initial_globals =
     \<lparr>courses = [], faculty = Map.empty, rooms = [], slots = [],
      preferred_slots = Map.empty, requirements = Map.empty,
      slot_parsed = Map.empty, course_teacher_cache = Map.empty, weights = WEIGHTS\<rparr>"

text \<open>One course with a teacher, one room, one slot; no cache has been filled yet.\<close>

definition one_course :: globals where
  "one_course =
     initial_globals\<lparr>courses := [''A''], faculty := [''A'' \<mapsto> ''T''], rooms := [''R''],
                     slots := [''Mon 09:00-10:00'']\<rparr>"

text \<open>The same course, whose teacher prefers a slot outside the catalog; the teacher cache
  is filled.\<close>

definition preferring :: globals where
  "preferring =
     one_course\<lparr>preferred_slots := [''T'' \<mapsto> [''Tue 09:00-10:00'']],
                course_teacher_cache := [''A'' \<mapsto> ''T'']\<rparr>"

text \<open>The same course with a second slot, on another day.\<close>

definition two_slots :: globals where
  "two_slots = one_course\<lparr>slots := [''Mon 09:00-10:00'', ''Tue 09:00-10:00'']\<rparr>"

text \<open>A run of two rounds.\<close>

definition short_run :: sa_params where
  "short_run = \<lparr>max_iter = 2, T0 = 500, alpha = float_0_9997, stop_if_zero = True,
                 live_plot = False, update_interval = None\<rparr>"

section \<open>Unfolding the definitions on concrete inputs\<close>

lemmas parse_defs =
  parse_label_def split_once_def py_int_def py_strip_def py_isspace_def py_unsigned_def
  py_isdigit_def decimal_value_def digit_val_def max_str_digits_def parse_slot_def

lemmas random_defs =
  random_random_def random_choice_def random_randrange_def random_sample2_def

lemmas float_defs =
  float_0_25_def float_0_45_def float_0_7_def float_0_8_def float_0_85_def
  float_0_9997_def float_1e_8_def float_1e_9_def

lemmas cost_defs =
  cost_function_def day_penalties_def day_penalty_def pair_step_def sched_add_def
  pref_list_def get_str_def WEIGHTS_def

section \<open>The float literals\<close>

text \<open>Each constant is within half a unit in the last place of the decimal written in
  the source.\<close>

lemma float_literals_nearest:
  "\<bar>float_0_25 - 25 / 100\<bar> \<le> 1 / 2 ^ 55" "\<bar>float_0_45 - 45 / 100\<bar> \<le> 1 / 2 ^ 55"
  "\<bar>float_0_7 - 7 / 10\<bar> \<le> 1 / 2 ^ 54" "\<bar>float_0_8 - 8 / 10\<bar> \<le> 1 / 2 ^ 54"
  "\<bar>float_0_85 - 85 / 100\<bar> \<le> 1 / 2 ^ 54" "\<bar>float_0_9997 - 9997 / 10000\<bar> \<le> 1 / 2 ^ 54"
  "\<bar>float_1e_8 - 1 / 10 ^ 8\<bar> \<le> 1 / 2 ^ 80" "\<bar>float_1e_9 - 1 / 10 ^ 9\<bar> \<le> 1 / 2 ^ 83"
  by (simp_all add: float_defs abs_if field_simps)

section \<open>Parsing slot labels\<close>

lemma split_char_nonempty: "split_char c s \<noteq> []"
  by (induction s) auto

lemma hd_split_char_no_sep: "c \<notin> set (hd (split_char c s))"
  by (induction s) auto

lemma split_char_subset: "p \<in> set (split_char c s) \<Longrightarrow> set p \<subseteq> set s"
proof (induction s arbitrary: p)
  case Nil
  then show ?case by simp
next
  case (Cons x xs)
  have ne: "split_char c xs \<noteq> []" by (rule split_char_nonempty)
  show ?case
  proof (cases "x = c")
    case True
    with Cons show ?thesis by auto
  next
    case False
    with Cons.prems have "p = x # hd (split_char c xs) \<or> p \<in> set (tl (split_char c xs))"
      by simp
    then show ?thesis
    proof
      assume "p = x # hd (split_char c xs)"
      moreover have "set (hd (split_char c xs)) \<subseteq> set xs"
        using Cons.IH [of "hd (split_char c xs)"] ne by simp
      ultimately show ?thesis by auto
    next
      assume "p \<in> set (tl (split_char c xs))"
      then have "p \<in> set (split_char c xs)" using ne by (metis list.set_sel(2))
      then show ?thesis using Cons.IH by auto
    qed
  qed
qed

lemma split_char_no_sep: "c \<notin> set s \<Longrightarrow> split_char c s = [s]"
  by (induction s) auto

lemma split_char_append: "c \<notin> set a \<Longrightarrow> split_char c (a @ c # b) = a # split_char c b"
  by (induction a) auto

lemma split_once_append: "c \<notin> set a \<Longrightarrow> split_once c (a @ c # b) = [a, b]"
  by (induction a) (auto simp: split_once_def)

lemma split_once_no_sep: "c \<notin> set s \<Longrightarrow> split_once c s = [s]"
  by (simp add: split_once_def)

lemma digit_val_nonneg: "py_isdigit ch \<Longrightarrow> 0 \<le> digit_val ch"
  by (simp add: py_isdigit_def digit_val_def)

lemma digits_ok_all: "digits_ok b \<Longrightarrow> \<forall>ch \<in> set b. ch \<noteq> CHR ''_'' \<longrightarrow> py_isdigit ch"
  by (induction b rule: digits_ok.induct) (auto split: if_splits)

lemma foldl_digits_nonneg:
  "0 \<le> a \<Longrightarrow> \<forall>d \<in> set ds. 0 \<le> digit_val d \<Longrightarrow> 0 \<le> foldl (\<lambda>acc d. acc * 10 + digit_val d) a ds"
  by (induction ds arbitrary: a) auto

lemma py_unsigned_nonneg: "py_unsigned b = Some v \<Longrightarrow> 0 \<le> v"
proof -
  assume a: "py_unsigned b = Some v"
  then have ok: "digits_ok b" and v: "v = decimal_value (filter (\<lambda>ch. ch \<noteq> CHR ''_'') b)"
    by (auto simp: py_unsigned_def Let_def split: if_splits)
  have "\<forall>d \<in> set (filter (\<lambda>ch. ch \<noteq> CHR ''_'') b). 0 \<le> digit_val d"
    using digits_ok_all [OF ok] by (auto intro: digit_val_nonneg)
  then show ?thesis unfolding v decimal_value_def by (intro foldl_digits_nonneg) auto
qed

lemma set_py_strip: "set (py_strip s) \<subseteq> set s"
proof -
  have "set (py_strip s) \<subseteq> set (dropWhile py_isspace s)"
    unfolding py_strip_def using set_dropWhileD by fastforce
  also have "\<dots> \<subseteq> set s" using set_dropWhileD by fastforce
  finally show ?thesis .
qed

lemma py_int_nonneg: "py_int s = Some v \<Longrightarrow> CHR ''-'' \<notin> set s \<Longrightarrow> 0 \<le> v"
proof -
  assume a: "py_int s = Some v" and m: "CHR ''-'' \<notin> set s"
  from m set_py_strip [of s] have "CHR ''-'' \<notin> set (py_strip s)" by auto
  with a show ?thesis
    by (auto simp: py_int_def split: list.splits if_splits dest: py_unsigned_nonneg)
qed

lemma parse_label_fields:
  "parse_label s = Inr (d, m) \<Longrightarrow>
   \<exists>hh mm. 0 \<le> hh \<and> 0 \<le> mm \<and> m = hh * 60 + mm"
proof -
  assume a: "parse_label s = Inr (d, m)"
  then obtain day tr where so: "split_once CHR '' '' s = [day, tr]"
    by (auto simp: parse_label_def split: list.splits)
  define st where "st = hd (split_char CHR ''-'' tr)"
  from a so obtain h mi where sc: "split_char CHR '':'' st = [h, mi]"
    by (auto simp: parse_label_def st_def Let_def split: list.splits)
  from a so sc obtain hh mm where hm: "py_int h = Some hh" "py_int mi = Some mm" "m = hh * 60 + mm"
    by (auto simp: parse_label_def st_def Let_def split: list.splits option.splits)
  have nd: "CHR ''-'' \<notin> set st" unfolding st_def by (rule hd_split_char_no_sep)
  have "set h \<subseteq> set st" "set mi \<subseteq> set st"
    using split_char_subset [of _ "CHR '':''" st] sc by auto
  with nd have "CHR ''-'' \<notin> set h" "CHR ''-'' \<notin> set mi" by auto
  with hm have "0 \<le> hh" "0 \<le> mm" by (auto dest: py_int_nonneg)
  with hm(3) show ?thesis by blast
qed

lemma parse_label_no_space: "CHR '' '' \<notin> set s \<Longrightarrow> parse_label s = Inl ValueError"
  by (simp add: parse_label_def split_once_no_sep)

lemma parse_label_shape:
  assumes "CHR '' '' \<notin> set day"
    and "CHR '':'' \<notin> set h" "CHR ''-'' \<notin> set h"
    and "CHR '':'' \<notin> set m" "CHR ''-'' \<notin> set m"
    and "rest = [] \<or> hd rest = CHR ''-''"
  shows "parse_label (day @ '' '' @ h @ '':'' @ m @ rest) =
         (case (py_int h, py_int m) of
            (Some hh, Some mm) \<Rightarrow> Inr (day, hh * 60 + mm)
          | _ \<Rightarrow> Inl ValueError)"
proof -
  have so: "split_once CHR '' '' (day @ '' '' @ h @ '':'' @ m @ rest) = [day, h @ '':'' @ m @ rest]"
    using split_once_append [OF assms(1)] by simp
  have hm: "CHR ''-'' \<notin> set (h @ '':'' @ m)" using assms(3,5) by simp
  have hd: "hd (split_char CHR ''-'' (h @ '':'' @ m @ rest)) = h @ '':'' @ m"
  proof (cases rest)
    case Nil
    then show ?thesis using split_char_no_sep [OF hm] by simp
  next
    case (Cons x xs)
    with assms(6) have "rest = CHR ''-'' # xs" by simp
    then show ?thesis using split_char_append [OF hm, of xs] by simp
  qed
  have sc: "split_char CHR '':'' (h @ '':'' @ m) = [h, m]"
    using split_char_append [OF assms(2), of m] split_char_no_sep [OF assms(4)] by simp
  show ?thesis
    unfolding parse_label_def so using hd sc by (simp add: Let_def del: split_char.simps)
qed

lemma parse_slot_fst: "cache_sound st \<Longrightarrow> fst (parse_slot st s) = parse_label s"
  by (auto simp: parse_slot_def cache_sound_def split: option.splits sum.splits)

lemma parse_slot_snd_sound: "cache_sound st \<Longrightarrow> cache_sound (snd (parse_slot st s))"
  by (auto simp: parse_slot_def cache_sound_def split: option.splits sum.splits)

lemma parse_slot_snd_same: "same_but_slot_cache st (snd (parse_slot st s))"
  by (auto simp: parse_slot_def same_but_slot_cache_def split: option.splits sum.splits)

lemma same_but_slot_cache_refl: "same_but_slot_cache st st"
  by (simp add: same_but_slot_cache_def)

lemma same_but_slot_cache_trans:
  "same_but_slot_cache a b \<Longrightarrow> same_but_slot_cache b c \<Longrightarrow> same_but_slot_cache a c"
  by (simp add: same_but_slot_cache_def)

lemma same_but_slot_cache_sym: "same_but_slot_cache a b \<Longrightarrow> same_but_slot_cache b a"
  by (simp add: same_but_slot_cache_def)

lemma prime_slots_sound: "cache_sound st \<Longrightarrow> cache_sound (prime_slots st ss)"
  by (induction ss arbitrary: st) (auto simp: parse_slot_snd_sound)

lemma prime_slots_same: "same_but_slot_cache st (prime_slots st ss)"
proof (induction ss arbitrary: st)
  case Nil
  show ?case by (simp add: same_but_slot_cache_refl)
next
  case (Cons s ss)
  show ?case
    using same_but_slot_cache_trans [OF parse_slot_snd_same Cons.IH] by simp
qed

lemma refresh_caches_sound: "cache_sound (refresh_caches st)"
proof -
  have "cache_sound (st\<lparr>slot_parsed := Map.empty\<rparr>)" by (simp add: cache_sound_def)
  from prime_slots_sound [OF this] show ?thesis
    by (simp add: refresh_caches_def Let_def cache_sound_def)
qed

lemma fold_teacher_cache:
  "fold (\<lambda>c m. m(c \<mapsto> f c)) cs m0 c = (if c \<in> set cs then Some (f c) else m0 c)"
  by (induction cs arbitrary: m0) auto

lemma refresh_caches_teacher:
  "course_teacher_cache (refresh_caches st) c =
     (if c \<in> set (courses st) then Some (get_str (faculty st) c) else None)"
proof -
  have "same_but_slot_cache (st\<lparr>slot_parsed := Map.empty\<rparr>) (prime_slots (st\<lparr>slot_parsed := Map.empty\<rparr>) (slots st))"
    by (rule prime_slots_same)
  then show ?thesis
    by (simp add: refresh_caches_def Let_def fold_teacher_cache same_but_slot_cache_def)
qed

lemma split_char_single: "split_char c s = [a] \<Longrightarrow> s = a \<and> c \<notin> set a"
proof (induction s arbitrary: a)
  case Nil
  then show ?case by auto
next
  case (Cons x xs)
  have ne: "split_char c xs \<noteq> []" by (rule split_char_nonempty)
  show ?case
  proof (cases "x = c")
    case True
    with Cons.prems ne show ?thesis by simp
  next
    case False
    with Cons.prems have a: "a = x # hd (split_char c xs)" and t: "tl (split_char c xs) = []"
      by simp_all
    from t ne have "split_char c xs = [hd (split_char c xs)]"
      by (cases "split_char c xs") simp_all
    from Cons.IH [OF this]
    have ih: "xs = hd (split_char c xs) \<and> c \<notin> set (hd (split_char c xs))" .
    from ih have xs: "xs = hd (split_char c xs)" by (rule conjunct1)
    from ih have n: "c \<notin> set (hd (split_char c xs))" by (rule conjunct2)
    from xs a have "x # xs = a" by simp
    moreover from n a False have "c \<notin> set a" by simp
    ultimately show ?thesis by simp
  qed
qed

lemma split_char_pair:
  "split_char c s = [a, b] \<Longrightarrow> s = a @ c # b \<and> c \<notin> set a \<and> c \<notin> set b"
proof (induction s arbitrary: a)
  case Nil
  then show ?case by simp
next
  case (Cons x xs)
  have ne: "split_char c xs \<noteq> []" by (rule split_char_nonempty)
  show ?case
  proof (cases "x = c")
    case True
    with Cons.prems have "a = []" and "split_char c xs = [b]" by simp_all
    with split_char_single [of c xs b] True show ?thesis by simp
  next
    case False
    with Cons.prems have a: "a = x # hd (split_char c xs)" and t: "tl (split_char c xs) = [b]"
      by simp_all
    from t ne have "split_char c xs = [hd (split_char c xs), b]"
      by (cases "split_char c xs") simp_all
    from Cons.IH [OF this] a False show ?thesis by simp
  qed
qed

lemma split_char_hd_rest:
  "\<exists>rest. s = hd (split_char c s) @ rest \<and> (rest = [] \<or> hd rest = c)"
proof (induction s)
  case Nil
  show ?case by simp
next
  case (Cons x xs)
  show ?case
  proof (cases "x = c")
    case True
    then show ?thesis by simp
  next
    case False
    from Cons.IH obtain rest where
      "xs = hd (split_char c xs) @ rest" "rest = [] \<or> hd rest = c" by blast
    with False show ?thesis by auto
  qed
qed

lemma split_once_pair: "split_once c s = [a, b] \<Longrightarrow> s = a @ c # b \<and> c \<notin> set a"
proof -
  assume p: "split_once c s = [a, b]"
  then have m: "c \<in> set s" and a: "a = takeWhile (\<lambda>x. x \<noteq> c) s"
    and b: "b = tl (dropWhile (\<lambda>x. x \<noteq> c) s)"
    by (auto simp: split_once_def split: if_splits)
  from m have ne: "dropWhile (\<lambda>x. x \<noteq> c) s \<noteq> []" by (simp add: dropWhile_eq_Nil_conv)
  with hd_dropWhile [OF ne] have "dropWhile (\<lambda>x. x \<noteq> c) s = c # b"
    unfolding b by (cases "dropWhile (\<lambda>x. x \<noteq> c) s") simp_all
  with takeWhile_dropWhile_id [of "\<lambda>x. x \<noteq> c" s] have "s = a @ c # b"
    unfolding a by simp
  moreover have "c \<notin> set a" unfolding a by (auto dest: set_takeWhileD)
  ultimately show ?thesis by simp
qed

lemma parse_label_error: "parse_label s = Inl e \<Longrightarrow> e = ValueError"
  by (auto simp: parse_label_def Let_def split: list.splits option.splits)

lemma parse_label_success_shape:
  assumes "parse_label slot = Inr (day, v)"
  shows "\<exists>h m rest hh mm.
           slot = day @ '' '' @ h @ '':'' @ m @ rest \<and> CHR '' '' \<notin> set day \<and>
           CHR '':'' \<notin> set h \<and> CHR ''-'' \<notin> set h \<and>
           CHR '':'' \<notin> set m \<and> CHR ''-'' \<notin> set m \<and>
           (rest = [] \<or> hd rest = CHR ''-'') \<and>
           py_int h = Some hh \<and> py_int m = Some mm \<and> v = hh * 60 + mm"
proof -
  from assms obtain d tr where so: "split_once CHR '' '' slot = [d, tr]"
    by (auto simp: parse_label_def split: list.splits)
  define start where "start = hd (split_char CHR ''-'' tr)"
  from assms so obtain h m where sc: "split_char CHR '':'' start = [h, m]"
    by (auto simp: parse_label_def start_def Let_def split: list.splits)
  from assms so sc obtain hh mm where
    i: "py_int h = Some hh" "py_int m = Some mm" and v: "v = hh * 60 + mm" and d: "d = day"
    by (auto simp: parse_label_def start_def Let_def split: list.splits option.splits)
  from split_once_pair [OF so] d have s1: "slot = day @ CHR '' '' # tr" "CHR '' '' \<notin> set day"
    by simp_all
  from split_char_hd_rest [of tr "CHR ''-''"] obtain rest where
    s2: "tr = start @ rest" "rest = [] \<or> hd rest = CHR ''-''" unfolding start_def by blast
  from split_char_pair [OF sc] have
    s3: "start = h @ CHR '':'' # m" "CHR '':'' \<notin> set h" "CHR '':'' \<notin> set m" by simp_all
  have "CHR ''-'' \<notin> set start" unfolding start_def by (rule hd_split_char_no_sep)
  with s3(1) have s4: "CHR ''-'' \<notin> set h" "CHR ''-'' \<notin> set m" by simp_all
  from s1 s2 s3 have "slot = day @ '' '' @ h @ '':'' @ m @ rest" by simp
  with s1(2) s2(2) s3(2,3) s4 i v show ?thesis by blast
qed

text \<open>
  C7, as amended. \<^verbatim>\<open>parse_slot\<close> raises \<^verbatim>\<open>ValueError\<close> and nothing else. It returns
  \<open>(day, v)\<close> exactly for the labels \<open>day h:m\<close>, followed by nothing or by \<open>-\<close> and any
  text, in which \<open>day\<close> has no space, \<open>h\<close> and \<open>m\<close> have no \<open>:\<close> and no \<open>-\<close> and are integer
  literals of \<^verbatim>\<open>int\<close>, and then \<open>v\<close> is \<open>60 h + m\<close>. Every other label is refused: one
  without a space, one whose start field has no colon or more than one, one whose hour
  or minute is not an integer literal. The separator \<open>-\<close> and the end time are not
  looked at.
\<close>

theorem parse_slot_shape:
  assumes "cache_sound st"
  shows "(\<forall>e. fst (parse_slot st slot) = Inl e \<longrightarrow> e = ValueError) \<and>
         (\<forall>day v. fst (parse_slot st slot) = Inr (day, v) \<longleftrightarrow>
            (\<exists>h m rest hh mm.
               slot = day @ '' '' @ h @ '':'' @ m @ rest \<and> CHR '' '' \<notin> set day \<and>
               CHR '':'' \<notin> set h \<and> CHR ''-'' \<notin> set h \<and>
               CHR '':'' \<notin> set m \<and> CHR ''-'' \<notin> set m \<and>
               (rest = [] \<or> hd rest = CHR ''-'') \<and>
               py_int h = Some hh \<and> py_int m = Some mm \<and> v = hh * 60 + mm))"
proof -
  have cached: "fst (parse_slot st x) = parse_label x" for x
    using assms by (rule parse_slot_fst)
  have shaped: "parse_label (day @ '' '' @ h @ '':'' @ m @ rest) = Inr (day, hh * 60 + mm)"
    if "CHR '' '' \<notin> set day \<and> CHR '':'' \<notin> set h \<and> CHR ''-'' \<notin> set h \<and>
        CHR '':'' \<notin> set m \<and> CHR ''-'' \<notin> set m \<and> (rest = [] \<or> hd rest = CHR ''-'') \<and>
        py_int h = Some hh \<and> py_int m = Some mm"
    for day h m rest hh mm
  proof -
    from that have c: "CHR '' '' \<notin> set day" "CHR '':'' \<notin> set h" "CHR ''-'' \<notin> set h"
      "CHR '':'' \<notin> set m" "CHR ''-'' \<notin> set m" "rest = [] \<or> hd rest = CHR ''-''"
      and i: "py_int h = Some hh" "py_int m = Some mm" by simp_all
    from parse_label_shape [OF c] i show ?thesis by simp
  qed
  show ?thesis
    unfolding cached using parse_label_error parse_label_success_shape shaped by blast
qed

theorem parse_slot_shape_witness:
  "cache_sound initial_globals \<and>
   fst (parse_slot initial_globals ''Mon 09:00-11:00'') = Inr (''Mon'', 540) \<and>
   fst (parse_slot initial_globals ''Monday'') = Inl ValueError \<and>
   fst (parse_slot initial_globals ''Mon 0900-1000'') = Inl ValueError \<and>
   fst (parse_slot initial_globals ''Mon 09:00:00-10:00'') = Inl ValueError \<and>
   fst (parse_slot initial_globals ''Mon 9h:00-11:00'') = Inl ValueError"
proof -
  have s: "cache_sound initial_globals"
    by (simp add: cache_sound_def initial_globals_def)
  have i: "py_int ''09'' = Some 9" "py_int ''00'' = Some 0"
    by (simp_all add: py_int_def py_strip_def py_isspace_def py_unsigned_def py_isdigit_def
          decimal_value_def digit_val_def max_str_digits_def)
  have "\<exists>h m rest hh mm.
          ''Mon 09:00-11:00'' = ''Mon'' @ '' '' @ h @ '':'' @ m @ rest \<and>
          CHR '' '' \<notin> set ''Mon'' \<and> CHR '':'' \<notin> set h \<and> CHR ''-'' \<notin> set h \<and>
          CHR '':'' \<notin> set m \<and> CHR ''-'' \<notin> set m \<and> (rest = [] \<or> hd rest = CHR ''-'') \<and>
          py_int h = Some hh \<and> py_int m = Some mm \<and> (540::int) = hh * 60 + mm"
    by (rule exI [of _ "''09''"], rule exI [of _ "''00''"], rule exI [of _ "''-11:00''"],
        rule exI [of _ 9], rule exI [of _ 0]) (simp add: i)
  with parse_slot_shape [OF s, of "''Mon 09:00-11:00''"]
  have ok: "fst (parse_slot initial_globals ''Mon 09:00-11:00'') = Inr (''Mon'', 540)"
    by blast
  have bad: "fst (parse_slot initial_globals ''Monday'') = Inl ValueError"
    "fst (parse_slot initial_globals ''Mon 0900-1000'') = Inl ValueError"
    "fst (parse_slot initial_globals ''Mon 09:00:00-10:00'') = Inl ValueError"
    "fst (parse_slot initial_globals ''Mon 9h:00-11:00'') = Inl ValueError"
    by (simp_all add: parse_defs initial_globals_def Let_def)
  from s ok bad show ?thesis by simp
qed

text \<open>C7 as stated fails: a label that lacks the separator \<open>-\<close> parses.\<close>

theorem parse_slot_missing_separator_counterexample:
  "fst (parse_slot initial_globals ''Mon 09:00'') = Inr (''Mon'', 540)"
  by (simp add: parse_defs initial_globals_def Let_def)

text \<open>
  C8, as amended. A successful parse gives \<open>60 hh + mm\<close> for two integers \<open>hh\<close> and
  \<open>mm\<close> that are not negative, so the start minute is never negative; no upper bound
  is checked.
\<close>

theorem parse_slot_start_minute:
  assumes "cache_sound st" and "fst (parse_slot st slot) = Inr (day, start_minutes)"
  shows "0 \<le> start_minutes \<and>
         (\<exists>hh mm. 0 \<le> hh \<and> 0 \<le> mm \<and> start_minutes = hh * 60 + mm)"
proof -
  from assms have "parse_label slot = Inr (day, start_minutes)"
    by (simp add: parse_slot_fst)
  from parse_label_fields [OF this] show ?thesis by auto
qed

theorem parse_slot_start_minute_witness:
  "cache_sound initial_globals \<and>
   fst (parse_slot initial_globals ''Tue 23:59-24:00'') = Inr (''Tue'', 1439) \<and>
   (0::int) \<le> 1439 \<and> (\<exists>hh mm. (0::int) \<le> hh \<and> 0 \<le> mm \<and> 1439 = hh * 60 + mm)"
proof -
  have s: "cache_sound initial_globals"
    by (simp add: cache_sound_def initial_globals_def)
  have p: "fst (parse_slot initial_globals ''Tue 23:59-24:00'') = Inr (''Tue'', 1439)"
    by (simp add: parse_defs initial_globals_def Let_def)
  from parse_slot_start_minute [OF s p] s p show ?thesis by simp
qed

text \<open>C8 as stated fails: hour 24 is accepted and gives start minute 1440.\<close>

theorem parse_slot_range_counterexample:
  "fst (parse_slot initial_globals ''Mon 24:00-25:00'') = Inr (''Mon'', 1440)"
  by (simp add: parse_defs initial_globals_def Let_def)

section \<open>The day-level pass\<close>

lemma pair_step_spec:
  "pair_step w xs i p = p + spec_pair_penalty w (xs ! i - xs ! (i - 1))"
  by (simp add: pair_step_def spec_pair_penalty_def Let_def)

lemma fold_pair_step:
  "fold (pair_step w xs) is p =
     p + sum_list (map (\<lambda>i. spec_pair_penalty w (xs ! i - xs ! (i - 1))) is)"
  by (induction "is" arbitrary: p) (simp_all add: pair_step_spec)

lemma consecutive_pairs:
  "map (\<lambda>i. (xs ! (i - 1), xs ! i)) [1..<length xs] = zip xs (tl xs)"
proof (rule nth_equalityI)
  show "length (map (\<lambda>i. (xs ! (i - 1), xs ! i)) [1..<length xs]) = length (zip xs (tl xs))"
    by simp
next
  fix k
  assume "k < length (map (\<lambda>i. (xs ! (i - 1), xs ! i)) [1..<length xs])"
  then have k: "k < length xs - 1" by simp
  then show "map (\<lambda>i. (xs ! (i - 1), xs ! i)) [1..<length xs] ! k = zip xs (tl xs) ! k"
    by (simp add: nth_tl)
qed

lemma sum_consecutive_pairs:
  "sum_list (map (\<lambda>i. f (xs ! i - xs ! (i - 1))) [1..<length xs]) =
   sum_list (map (\<lambda>(a, b). f (b - a)) (zip xs (tl xs)))"
proof -
  have "map (\<lambda>i. f (xs ! i - xs ! (i - 1))) [1..<length xs] =
        map (\<lambda>(a, b). f (b - a)) (map (\<lambda>i. (xs ! (i - 1), xs ! i)) [1..<length xs])"
    by simp
  then show ?thesis by (simp only: consecutive_pairs)
qed

lemma day_penalty_spec: "day_penalty w starts p = p + spec_bucket_penalty w starts"
  by (simp add: day_penalty_def spec_bucket_penalty_def Let_def fold_pair_step
        sum_consecutive_pairs [of _ "sort starts", simplified])

lemma fold_days_spec:
  "fold (\<lambda>(day, starts) p'. day_penalty w starts p') days p =
     p + sum_list (map (spec_bucket_penalty w) (map snd days))"
  by (induction days arbitrary: p) (auto simp: day_penalty_spec)

lemma day_penalties_spec:
  "day_penalties w sched p = p + sum_list (map (spec_bucket_penalty w) (buckets sched))"
  unfolding day_penalties_def buckets_def
  by (induction sched arbitrary: p) (auto simp: fold_days_spec)

lemma spec_pair_penalty_nonneg:
  "0 \<le> back_to_back w \<Longrightarrow> 0 \<le> gap w \<Longrightarrow> 0 \<le> spec_pair_penalty w d"
  by (simp add: spec_pair_penalty_def)

lemma spec_bucket_penalty_nonneg:
  assumes "0 \<le> back_to_back w" "0 \<le> gap w" "0 \<le> too_many_sessions_day w"
  shows "0 \<le> spec_bucket_penalty w starts"
proof -
  have "0 \<le> sum_list (map (\<lambda>(a, b). spec_pair_penalty w (b - a)) zs)" for zs
    by (induction zs) (auto simp: spec_pair_penalty_nonneg [OF assms(1,2)])
  then show ?thesis
    using assms(3) by (simp add: spec_bucket_penalty_def Let_def)
qed

lemma day_penalties_mono:
  assumes "0 \<le> back_to_back w" "0 \<le> gap w" "0 \<le> too_many_sessions_day w"
  shows "p \<le> day_penalties w sched p"
proof -
  have "0 \<le> sum_list (map (spec_bucket_penalty w) bs)" for bs
    by (induction bs) (auto simp: spec_bucket_penalty_nonneg [OF assms] add_nonneg_nonneg)
  then show ?thesis by (simp add: day_penalties_spec)
qed

section \<open>The loop over the assignments\<close>

lemma cost_step_same: "same_but_slot_cache st (snd (cost_step st acc a))"
proof (cases a)
  case (fields c s r)
  show ?thesis
    using parse_slot_snd_same [of st s]
    by (auto simp: fields Let_def same_but_slot_cache_refl split: prod.splits sum.splits)
qed

lemma cost_step_sound: "cache_sound st \<Longrightarrow> cache_sound (snd (cost_step st acc a))"
proof (cases a)
  case (fields c s r)
  assume "cache_sound st"
  then show ?thesis
    using parse_slot_snd_sound [of st s]
    by (auto simp: fields Let_def split: prod.splits sum.splits)
qed

lemma cost_step_independent:
  assumes "cache_sound st" "cache_sound st'" "same_but_slot_cache st st'"
  shows "fst (cost_step st' acc a) = fst (cost_step st acc a)"
proof (cases a)
  case (fields c s r)
  have p: "fst (parse_slot st' s) = fst (parse_slot st s)"
    using assms by (simp add: parse_slot_fst)
  have f: "course_teacher_cache st' = course_teacher_cache st" "weights st' = weights st"
          "pref_list st' = pref_list st"
    using assms(3) by (auto simp: same_but_slot_cache_def pref_list_def fun_eq_iff)
  show ?thesis
    using p by (cases "parse_slot st s"; cases "parse_slot st' s")
               (auto simp: fields f Let_def split: sum.splits)
qed

lemma cost_loop_same: "same_but_slot_cache st (snd (cost_loop st acc tt))"
proof (induction tt arbitrary: st acc)
  case Nil
  show ?case by (simp add: same_but_slot_cache_refl)
next
  case (Cons a tt)
  obtain acc' st' where s: "cost_step st acc a = (acc', st')" by (cases "cost_step st acc a")
  have "same_but_slot_cache st st'" using cost_step_same [of st acc a] s by simp
  from same_but_slot_cache_trans [OF this Cons.IH [of st' acc']] show ?case by (simp add: s)
qed

lemma cost_loop_sound: "cache_sound st \<Longrightarrow> cache_sound (snd (cost_loop st acc tt))"
proof (induction tt arbitrary: st acc)
  case Nil
  then show ?case by simp
next
  case (Cons a tt)
  obtain acc' st' where s: "cost_step st acc a = (acc', st')" by (cases "cost_step st acc a")
  have "cache_sound st'" using cost_step_sound [OF Cons.prems, of acc a] s by simp
  from Cons.IH [OF this, of acc'] show ?case by (simp add: s)
qed

lemma cost_loop_independent:
  assumes "cache_sound st" "cache_sound st'" "same_but_slot_cache st st'"
  shows "fst (cost_loop st' acc tt) = fst (cost_loop st acc tt)"
  using assms
proof (induction tt arbitrary: st st' acc)
  case Nil
  show ?case by simp
next
  case (Cons a tt)
  obtain acc1 st1 where s1: "cost_step st acc a = (acc1, st1)" by (cases "cost_step st acc a")
  obtain acc2 st2 where s2: "cost_step st' acc a = (acc2, st2)" by (cases "cost_step st' acc a")
  have e: "acc2 = acc1"
    using cost_step_independent [OF Cons.prems, of acc a] s1 s2 by simp
  have c1: "cache_sound st1" using cost_step_sound [OF Cons.prems(1), of acc a] s1 by simp
  have c2: "cache_sound st2" using cost_step_sound [OF Cons.prems(2), of acc a] s2 by simp
  have "same_but_slot_cache st1 st" 
    using cost_step_same [of st acc a] s1 by (simp add: same_but_slot_cache_sym)
  moreover have "same_but_slot_cache st' st2" using cost_step_same [of st' acc a] s2 by simp
  ultimately have r: "same_but_slot_cache st1 st2"
    using Cons.prems(3) by (blast intro: same_but_slot_cache_trans)
  from Cons.IH [OF c1 c2 r, of acc1] show ?case by (simp add: s1 s2 e)
qed

lemma cost_function_independent:
  assumes "cache_sound st" "cache_sound st'" "same_but_slot_cache st st'"
  shows "fst (cost_function st' tt) = fst (cost_function st tt)"
proof -
  have w: "weights st' = weights st" using assms(3) by (simp add: same_but_slot_cache_def)
  show ?thesis
    using cost_loop_independent [OF assms]
    by (simp add: cost_function_def w split: prod.splits) (metis fst_conv)
qed

lemma cost_function_same: "same_but_slot_cache st (snd (cost_function st tt))"
  using cost_loop_same [of st _ tt] by (simp add: cost_function_def split: prod.splits) (metis snd_conv)

lemma cost_function_sound: "cache_sound st \<Longrightarrow> cache_sound (snd (cost_function st tt))"
  using cost_loop_sound [of st _ tt] by (simp add: cost_function_def split: prod.splits) (metis snd_conv)

declare cost_step.simps [simp del]

lemma cost_step_penalty_mono:
  "weights st = WEIGHTS \<Longrightarrow> penalty acc \<le> penalty (fst (cost_step st acc a))"
  by (cases a) (auto simp: cost_step.simps Let_def WEIGHTS_def split: prod.splits sum.splits)

lemma cost_loop_penalty_mono:
  "weights st = WEIGHTS \<Longrightarrow> penalty acc \<le> penalty (fst (cost_loop st acc tt))"
proof (induction tt arbitrary: st acc)
  case Nil
  show ?case by simp
next
  case (Cons a tt)
  obtain acc' st' where s: "cost_step st acc a = (acc', st')" by (cases "cost_step st acc a")
  have w: "weights st' = WEIGHTS"
    using cost_step_same [of st acc a] s Cons.prems by (simp add: same_but_slot_cache_def)
  have "penalty acc \<le> penalty acc'"
    using cost_step_penalty_mono [OF Cons.prems, of acc a] s by simp
  also have "\<dots> \<le> penalty (fst (cost_loop st' acc' tt))" by (rule Cons.IH [OF w])
  finally show ?case by (simp add: s)
qed

lemma cost_step_zero:
  assumes "weights st = WEIGHTS" "cache_sound st"
    and "penalty (fst (cost_step st acc (c, s, r))) = penalty acc"
  shows "get_str (course_teacher_cache st) c \<noteq> [] \<and>
         (get_str (course_teacher_cache st) c, s) \<notin> used_faculty acc \<and>
         (r, s) \<notin> used_rooms acc \<and>
         (\<exists>v. parse_label s = Inr v) \<and>
         used_faculty (fst (cost_step st acc (c, s, r))) =
           insert (get_str (course_teacher_cache st) c, s) (used_faculty acc) \<and>
         used_rooms (fst (cost_step st acc (c, s, r))) = insert (r, s) (used_rooms acc)"
proof -
  have p: "fst (parse_slot st s) = parse_label s" using assms(2) by (rule parse_slot_fst)
  show ?thesis
    using assms(1,3) p
    by (cases "parse_slot st s"; cases "parse_label s")
       (auto simp: cost_step.simps Let_def WEIGHTS_def split: if_splits)
qed

lemma cost_loop_zero:
  assumes "weights st = WEIGHTS" "cache_sound st"
    and "penalty (fst (cost_loop st acc tt)) = penalty acc"
  shows "distinct (map (\<lambda>(c, s, r). (get_str (course_teacher_cache st) c, s)) tt) \<and>
         (\<forall>(c, s, r) \<in> set tt. (get_str (course_teacher_cache st) c, s) \<notin> used_faculty acc) \<and>
         distinct (map (\<lambda>(c, s, r). (r, s)) tt) \<and>
         (\<forall>(c, s, r) \<in> set tt. (r, s) \<notin> used_rooms acc) \<and>
         (\<forall>(c, s, r) \<in> set tt.
            get_str (course_teacher_cache st) c \<noteq> [] \<and> (\<exists>v. parse_label s = Inr v))"
  using assms
proof (induction tt arbitrary: st acc)
  case Nil
  show ?case by simp
next
  case (Cons a tt)
  obtain c s r where a: "a = (c, s, r)" by (cases a)
  obtain acc' st' where st: "cost_step st acc a = (acc', st')" by (cases "cost_step st acc a")
  have same: "same_but_slot_cache st st'" using cost_step_same [of st acc a] st by simp
  then have w: "weights st' = WEIGHTS" and t: "course_teacher_cache st' = course_teacher_cache st"
    using Cons.prems(1) by (simp_all add: same_but_slot_cache_def)
  have snd: "cache_sound st'" using cost_step_sound [OF Cons.prems(2), of acc a] st by simp
  have le1: "penalty acc \<le> penalty acc'"
    using cost_step_penalty_mono [OF Cons.prems(1), of acc a] st by simp
  have le2: "penalty acc' \<le> penalty (fst (cost_loop st' acc' tt))"
    by (rule cost_loop_penalty_mono [OF w])
  have fin: "penalty (fst (cost_loop st' acc' tt)) = penalty acc"
    using Cons.prems(3) by (simp add: st)
  from le1 le2 fin have e1: "penalty acc' = penalty acc"
    and e2: "penalty (fst (cost_loop st' acc' tt)) = penalty acc'" by simp_all
  have "penalty (fst (cost_step st acc (c, s, r))) = penalty acc"
    using e1 st a by simp
  from cost_step_zero [OF Cons.prems(1,2) this] st a
  have hd: "get_str (course_teacher_cache st) c \<noteq> []"
    "(get_str (course_teacher_cache st) c, s) \<notin> used_faculty acc"
    "(r, s) \<notin> used_rooms acc" "\<exists>v. parse_label s = Inr v"
    "used_faculty acc' = insert (get_str (course_teacher_cache st) c, s) (used_faculty acc)"
    "used_rooms acc' = insert (r, s) (used_rooms acc)"
    by simp_all
  from Cons.IH [OF w snd e2] t
  have tl: "distinct (map (\<lambda>(c, s, r). (get_str (course_teacher_cache st) c, s)) tt)"
    "\<forall>(c, s, r) \<in> set tt. (get_str (course_teacher_cache st) c, s) \<notin> used_faculty acc'"
    "distinct (map (\<lambda>(c, s, r). (r, s)) tt)"
    "\<forall>(c, s, r) \<in> set tt. (r, s) \<notin> used_rooms acc'"
    "\<forall>(c, s, r) \<in> set tt.
        get_str (course_teacher_cache st) c \<noteq> [] \<and> (\<exists>v. parse_label s = Inr v)"
    by simp_all
  show ?case
    unfolding a using hd(1-4) tl unfolding hd(5,6) by (auto simp: image_iff)
qed

lemma cost_function_zero:
  assumes "weights st = WEIGHTS" "cache_sound st" "fst (cost_function st tt) = 0"
  shows "distinct (map (\<lambda>(c, s, r). (get_str (course_teacher_cache st) c, s)) tt) \<and>
         distinct (map (\<lambda>(c, s, r). (r, s)) tt) \<and>
         (\<forall>(c, s, r) \<in> set tt.
            get_str (course_teacher_cache st) c \<noteq> [] \<and> (\<exists>v. parse_label s = Inr v))"
proof -
  define init where
    "init = \<lparr>penalty = 0, used_faculty = {}, used_rooms = {}, faculty_schedule = []\<rparr>"
  define acc where "acc = fst (cost_loop st init tt)"
  have total: "fst (cost_function st tt) =
                 day_penalties WEIGHTS (faculty_schedule acc) (penalty acc)"
    by (simp add: cost_function_def acc_def init_def assms(1) split: prod.splits)
  have "penalty acc \<le> day_penalties WEIGHTS (faculty_schedule acc) (penalty acc)"
    by (rule day_penalties_mono) (simp_all add: WEIGHTS_def)
  moreover have "penalty init \<le> penalty acc"
    unfolding acc_def by (rule cost_loop_penalty_mono [OF assms(1)])
  ultimately have "penalty (fst (cost_loop st init tt)) = penalty init"
    using assms(3) total by (simp add: init_def acc_def)
  from cost_loop_zero [OF assms(1,2) this] show ?thesis by simp
qed

lemma teacher_cache_fresh:
  assumes "course_teacher_cache st = course_teacher_cache (refresh_caches st)"
    and "get_str (course_teacher_cache st) c \<noteq> []"
  shows "c \<in> set (courses st) \<and> get_str (faculty st) c \<noteq> []"
  using assms(2) unfolding assms(1)
  by (simp add: get_str_def refresh_caches_teacher split: if_splits)

section \<open>Properties of the evaluator\<close>

text \<open>
  C2. With the weights of the source and a sound slot cache, a timetable of cost 0 has
  no two assignments with the same (teacher, slot) pair and no two with the same
  (room, slot) pair; every course in it has a teacher that is not empty, in the
  teacher cache the evaluator reads and, when that cache is as \<^verbatim>\<open>refresh_caches\<close>
  built it, in \<^verbatim>\<open>faculty\<close>; and every slot label in it parses.
\<close>

theorem zero_cost_no_hard_conflicts:
  assumes "weights st = WEIGHTS" and "cache_sound st" and "fst (cost_function st s) = 0"
  shows "distinct (map (\<lambda>(course, slot, room). (get_str (course_teacher_cache st) course, slot)) s) \<and>
         distinct (map (\<lambda>(course, slot, room). (room, slot)) s) \<and>
         (\<forall>(course, slot, room) \<in> set s.
            get_str (course_teacher_cache st) course \<noteq> [] \<and>
            (\<exists>v. parse_label slot = Inr v) \<and>
            (course_teacher_cache st = course_teacher_cache (refresh_caches st) \<longrightarrow>
               course \<in> set (courses st) \<and> get_str (faculty st) course \<noteq> []))"
proof -
  from cost_function_zero [OF assms]
  have d: "distinct (map (\<lambda>(course, slot, room). (get_str (course_teacher_cache st) course, slot)) s)"
    "distinct (map (\<lambda>(course, slot, room). (room, slot)) s)"
    and t: "\<forall>(course, slot, room) \<in> set s.
            get_str (course_teacher_cache st) course \<noteq> [] \<and> (\<exists>v. parse_label slot = Inr v)"
    by simp_all
  from t have "\<forall>(course, slot, room) \<in> set s.
            get_str (course_teacher_cache st) course \<noteq> [] \<and>
            (\<exists>v. parse_label slot = Inr v) \<and>
            (course_teacher_cache st = course_teacher_cache (refresh_caches st) \<longrightarrow>
               course \<in> set (courses st) \<and> get_str (faculty st) course \<noteq> [])"
    using teacher_cache_fresh [of st] by fastforce
  with d show ?thesis by simp
qed

theorem zero_cost_no_hard_conflicts_witness:
  "weights (refresh_caches one_course) = WEIGHTS \<and>
   cache_sound (refresh_caches one_course) \<and>
   fst (cost_function (refresh_caches one_course)
          [(''A'', ''Mon 09:00-10:00'', ''R''), (''A'', ''Tue 09:00-10:00'', ''R'')]) = 0 \<and>
   get_str (course_teacher_cache (refresh_caches one_course)) ''A'' \<noteq> [] \<and>
   (\<exists>v. parse_label ''Tue 09:00-10:00'' = Inr v) \<and>
   get_str (faculty (refresh_caches one_course)) ''A'' \<noteq> []"
proof -
  have w: "weights (refresh_caches one_course) = WEIGHTS"
    by (simp add: refresh_caches_def one_course_def initial_globals_def parse_defs Let_def)
  have c: "cache_sound (refresh_caches one_course)" by (rule refresh_caches_sound)
  have z: "fst (cost_function (refresh_caches one_course)
          [(''A'', ''Mon 09:00-10:00'', ''R''), (''A'', ''Tue 09:00-10:00'', ''R'')]) = 0"
    by (simp add: refresh_caches_def one_course_def initial_globals_def parse_defs cost_defs
          cost_step.simps Let_def)
  have r: "course_teacher_cache (refresh_caches one_course) =
           course_teacher_cache (refresh_caches (refresh_caches one_course))"
    by (simp add: refresh_caches_def one_course_def initial_globals_def parse_defs Let_def)
  from zero_cost_no_hard_conflicts [OF w c z] w c z r show ?thesis by simp
qed

text \<open>
  C4, as amended. The cost of a timetable is the same from any two states that differ
  only in the contents of a sound slot cache, and evaluating the same timetable a second
  time, from the state the first evaluation left, gives the same cost.
\<close>

theorem cost_function_slot_cache_independent:
  assumes "cache_sound st" and "cache_sound st'" and "same_but_slot_cache st st'"
  shows "fst (cost_function st' s) = fst (cost_function st s) \<and>
         fst (cost_function (snd (cost_function st s)) s) = fst (cost_function st s)"
proof -
  have "fst (cost_function (snd (cost_function st s)) s) = fst (cost_function st s)"
    by (rule cost_function_independent
          [OF assms(1) cost_function_sound [OF assms(1)] cost_function_same])
  with cost_function_independent [OF assms] show ?thesis by simp
qed

theorem cost_function_slot_cache_independent_witness:
  "cache_sound (one_course\<lparr>course_teacher_cache := [''A'' \<mapsto> ''T'']\<rparr>) \<and>
   cache_sound (one_course\<lparr>course_teacher_cache := [''A'' \<mapsto> ''T''],
                           slot_parsed := [''Mon 09:00-10:00'' \<mapsto> (''Mon'', 540)]\<rparr>) \<and>
   fst (cost_function
          (one_course\<lparr>course_teacher_cache := [''A'' \<mapsto> ''T''],
                      slot_parsed := [''Mon 09:00-10:00'' \<mapsto> (''Mon'', 540)]\<rparr>)
          [(''A'', ''Mon 09:00-10:00'', ''R''), (''A'', ''Mon 09:00-10:00'', ''R'')]) = 40000 \<and>
   fst (cost_function (one_course\<lparr>course_teacher_cache := [''A'' \<mapsto> ''T'']\<rparr>)
          [(''A'', ''Mon 09:00-10:00'', ''R''), (''A'', ''Mon 09:00-10:00'', ''R'')]) = 40000"
proof -
  have a: "cache_sound (one_course\<lparr>course_teacher_cache := [''A'' \<mapsto> ''T'']\<rparr>)"
    by (simp add: cache_sound_def one_course_def initial_globals_def)
  have p: "parse_label ''Mon 09:00-10:00'' = Inr (''Mon'', 540)"
    by (simp add: parse_defs Let_def)
  have b: "cache_sound (one_course\<lparr>course_teacher_cache := [''A'' \<mapsto> ''T''],
                           slot_parsed := [''Mon 09:00-10:00'' \<mapsto> (''Mon'', 540)]\<rparr>)"
    using p by (simp add: cache_sound_def one_course_def initial_globals_def)
  have s: "same_but_slot_cache (one_course\<lparr>course_teacher_cache := [''A'' \<mapsto> ''T'']\<rparr>)
             (one_course\<lparr>course_teacher_cache := [''A'' \<mapsto> ''T''],
                           slot_parsed := [''Mon 09:00-10:00'' \<mapsto> (''Mon'', 540)]\<rparr>)"
    by (simp add: same_but_slot_cache_def)
  have v: "fst (cost_function (one_course\<lparr>course_teacher_cache := [''A'' \<mapsto> ''T'']\<rparr>)
          [(''A'', ''Mon 09:00-10:00'', ''R''), (''A'', ''Mon 09:00-10:00'', ''R'')]) = 40000"
    by (simp add: one_course_def initial_globals_def parse_defs cost_defs cost_step.simps Let_def)
  from cost_function_slot_cache_independent [OF a b s,
         of "[(''A'', ''Mon 09:00-10:00'', ''R''), (''A'', ''Mon 09:00-10:00'', ''R'')]"] a b v
  show ?thesis by simp
qed

text \<open>C4 as stated fails: the evaluator also reads the course-to-teacher cache, and its
  contents decide the result. Before the cache is filled the only assignment counts as
  missing its teacher; once it is filled, with the configuration unchanged, the cost is 0.\<close>

theorem cost_function_teacher_cache_counterexample:
  "fst (cost_function one_course [(''A'', ''Mon 09:00-10:00'', ''R'')]) = 20000 \<and>
   fst (cost_function (one_course\<lparr>course_teacher_cache := [''A'' \<mapsto> ''T'']\<rparr>)
          [(''A'', ''Mon 09:00-10:00'', ''R'')]) = 0"
  by (simp add: one_course_def initial_globals_def parse_defs cost_defs cost_step.simps Let_def)

text \<open>
  C6. For a bucket of start minutes, the day-level pass adds
  \<open>too_many_sessions_day \<times> (n - 4)\<close> when the bucket has \<open>n \<ge> 5\<close> entries, and for each
  consecutive pair of the bucket sorted ascending, at distance \<open>d\<close>, it adds
  \<open>back_to_back\<close> when \<open>0 < d \<le> 60\<close>, \<open>gap\<close> when \<open>d > 60\<close> and nothing when \<open>d = 0\<close>.
  The pass as a whole adds this for every bucket of the schedule, and the cost is the
  penalty of the first pass plus that.
\<close>

theorem day_level_penalties:
  "day_penalty w starts p =
     p + (if length starts \<ge> 5 then too_many_sessions_day w * (int (length starts) - 4) else 0)
       + sum_list (map (\<lambda>(a, b). spec_pair_penalty w (b - a)) (zip (sort starts) (tl (sort starts)))) \<and>
   sorted (sort starts) \<and>
   spec_pair_penalty w 0 = 0 \<and>
   day_penalties w sched p = p + sum_list (map (spec_bucket_penalty w) (buckets sched)) \<and>
   fst (cost_function st tt) =
     day_penalties (weights st)
       (faculty_schedule (fst (cost_loop st
          \<lparr>penalty = 0, used_faculty = {}, used_rooms = {}, faculty_schedule = []\<rparr> tt)))
       (penalty (fst (cost_loop st
          \<lparr>penalty = 0, used_faculty = {}, used_rooms = {}, faculty_schedule = []\<rparr> tt)))"
proof -
  have "day_penalty w starts p = p + spec_bucket_penalty w starts" by (rule day_penalty_spec)
  then have 1: "day_penalty w starts p =
     p + (if length starts \<ge> 5 then too_many_sessions_day w * (int (length starts) - 4) else 0)
       + sum_list (map (\<lambda>(a, b). spec_pair_penalty w (b - a)) (zip (sort starts) (tl (sort starts))))"
    by (simp add: spec_bucket_penalty_def Let_def)
  have 2: "spec_pair_penalty w 0 = 0" by (simp add: spec_pair_penalty_def)
  have 3: "fst (cost_function st tt) =
     day_penalties (weights st)
       (faculty_schedule (fst (cost_loop st
          \<lparr>penalty = 0, used_faculty = {}, used_rooms = {}, faculty_schedule = []\<rparr> tt)))
       (penalty (fst (cost_loop st
          \<lparr>penalty = 0, used_faculty = {}, used_rooms = {}, faculty_schedule = []\<rparr> tt)))"
    by (simp add: cost_function_def split: prod.splits)
  from 1 2 3 day_penalties_spec [of w sched p] show ?thesis by simp
qed

theorem day_level_penalties_witness:
  "day_penalty WEIGHTS [600, 540, 540, 700, 900, 0] 0 = 24 \<and>
   (if length [600, 540, 540, 700, 900, 0 :: int] \<ge> 5
    then too_many_sessions_day WEIGHTS * (int (length [600, 540, 540, 700, 900, 0 :: int]) - 4)
    else 0) = 20 \<and>
   sum_list (map (\<lambda>(a, b). spec_pair_penalty WEIGHTS (b - a))
                 (zip (sort [600, 540, 540, 700, 900, 0]) (tl (sort [600, 540, 540, 700, 900, 0])))) = 4"
proof -
  have a: "(if length [600, 540, 540, 700, 900, 0 :: int] \<ge> 5
    then too_many_sessions_day WEIGHTS * (int (length [600, 540, 540, 700, 900, 0 :: int]) - 4)
    else 0) = 20"
    by (simp add: WEIGHTS_def)
  have b: "sum_list (map (\<lambda>(a, b). spec_pair_penalty WEIGHTS (b - a))
                 (zip (sort [600, 540, 540, 700, 900, 0]) (tl (sort [600, 540, 540, 700, 900, 0])))) = 4"
    by (simp add: WEIGHTS_def spec_pair_penalty_def)
  from day_level_penalties [of WEIGHTS "[600, 540, 540, 700, 900, 0]" 0] a b
  show ?thesis by simp
qed

section \<open>The generator\<close>

lemma random_choice_nonempty:
  "xs \<noteq> [] \<Longrightarrow> \<exists>x. fst (random_choice xs g) = Inr x \<and> x \<in> set xs"
  by (simp add: random_choice_def)

lemma random_choice_empty: "random_choice [] g = (Inl IndexError, g)"
  by (simp add: random_choice_def)

lemma random_choice_error: "fst (random_choice xs g) = Inl e \<Longrightarrow> e = IndexError \<and> xs = []"
  by (simp add: random_choice_def split: if_splits)

lemma session_loop_length:
  "fst (session_loop st c n tt g) = Inr tt' \<Longrightarrow> length tt' = length tt + n"
proof (induction n arbitrary: tt g)
  case 0
  then show ?case by simp
next
  case (Suc n)
  then show ?case
    by (auto simp: Let_def split: prod.splits sum.splits if_splits)
qed

lemma course_loop_length:
  "fst (course_loop st cs tt g) = Inr tt' \<Longrightarrow>
   length tt' = length tt + sum_list (map (session_count st) cs)"
proof (induction cs arbitrary: tt g)
  case Nil
  then show ?case by simp
next
  case (Cons c cs)
  obtain r g' where s: "session_loop st c (session_count st c) tt g = (r, g')"
    by (cases "session_loop st c (session_count st c) tt g")
  show ?case
  proof (cases r)
    case (Inl e)
    with Cons.prems s show ?thesis by simp
  next
    case (Inr tt1)
    with s have "length tt1 = length tt + session_count st c"
      using session_loop_length [of st c "session_count st c" tt g tt1] by simp
    moreover have "length tt' = length tt1 + sum_list (map (session_count st) cs)"
      using Cons.prems s Inr Cons.IH [of tt1 g'] by simp
    ultimately show ?thesis by simp
  qed
qed

lemma session_loop_returns:
  assumes "rooms st \<noteq> []" "slots st \<noteq> []"
  shows "\<exists>tt'. fst (session_loop st c n tt g) = Inr tt'"
proof (induction n arbitrary: tt g)
  case 0
  show ?case by simp
next
  case (Suc n)
  define teacher where "teacher = get_str (faculty st) c"
  define d where "d = (if pref_list st teacher \<noteq> []
               then (let (u, g') = random_random g
                     in if u < float_0_8 then random_choice (pref_list st teacher) g'
                        else random_choice (slots st) g')
               else random_choice (slots st) g)"
  have "\<exists>slot. fst d = Inr slot"
    unfolding d_def using assms(2) random_choice_nonempty
    by (auto simp: Let_def split: prod.splits)
  then obtain slot g1 where d: "d = (Inr slot, g1)" by (cases d) auto
  obtain room g2 where r: "random_choice (rooms st) g1 = (Inr room, g2)"
    using random_choice_nonempty [OF assms(1), of g1]
    by (cases "random_choice (rooms st) g1") auto
  from Suc.IH [of "tt @ [(c, slot, room)]" g2] show ?case
    using d r unfolding d_def teacher_def by (simp add: Let_def)
qed

lemma course_loop_returns:
  assumes "rooms st \<noteq> []" "slots st \<noteq> []"
  shows "\<exists>tt'. fst (course_loop st cs tt g) = Inr tt'"
proof (induction cs arbitrary: tt g)
  case Nil
  show ?case by simp
next
  case (Cons c cs)
  obtain tt1 where "fst (session_loop st c (session_count st c) tt g) = Inr tt1"
    using session_loop_returns [OF assms] by blast
  then obtain g' where "session_loop st c (session_count st c) tt g = (Inr tt1, g')"
    by (cases "session_loop st c (session_count st c) tt g") auto
  with Cons.IH [of tt1 g'] show ?case by simp
qed

lemma session_loop_no_rooms:
  assumes "rooms st = []"
  shows "fst (session_loop st c (Suc n) tt g) = Inl IndexError"
proof -
  define teacher where "teacher = get_str (faculty st) c"
  define d where "d = (if pref_list st teacher \<noteq> []
               then (let (u, g') = random_random g
                     in if u < float_0_8 then random_choice (pref_list st teacher) g'
                        else random_choice (slots st) g')
               else random_choice (slots st) g)"
  have e: "fst d = Inl e \<Longrightarrow> e = IndexError" for e
    unfolding d_def using random_choice_error
    by (auto simp: Let_def split: prod.splits if_splits)
  show ?thesis
  proof (cases d)
    case (Pair r g1)
    show ?thesis
    proof (cases r)
      case (Inl e)
      with e Pair have "e = IndexError" by simp
      with Inl Pair show ?thesis unfolding d_def teacher_def by (simp add: Let_def)
    next
      case (Inr slot)
      with Pair show ?thesis
        unfolding d_def teacher_def by (simp add: Let_def assms random_choice_empty)
    qed
  qed
qed

lemma course_loop_no_rooms:
  assumes "rooms st = []"
  shows "fst (course_loop st cs tt g) =
           (if \<forall>c \<in> set cs. session_count st c = 0 then Inr tt else Inl IndexError)"
proof (induction cs arbitrary: tt g)
  case Nil
  show ?case by simp
next
  case (Cons c cs)
  show ?case
  proof (cases "session_count st c")
    case 0
    with Cons.IH [of tt g] show ?thesis by simp
  next
    case (Suc n)
    with session_loop_no_rooms [OF assms, of c n tt g] show ?thesis
      by (cases "session_loop st c (Suc n) tt g") auto
  qed
qed

lemma session_loop_error:
  "fst (session_loop st c n tt g) = Inl e \<Longrightarrow> e = IndexError \<and> (rooms st = [] \<or> slots st = [])"
proof (induction n arbitrary: tt g)
  case 0
  then show ?case by simp
next
  case (Suc n)
  from Suc.prems show ?case
    by (auto simp: Let_def random_choice_def split: prod.splits sum.splits if_splits
             dest: Suc.IH)
qed

lemma course_loop_error:
  "fst (course_loop st cs tt g) = Inl e \<Longrightarrow> e = IndexError \<and> (rooms st = [] \<or> slots st = [])"
proof (induction cs arbitrary: tt g)
  case Nil
  then show ?case by simp
next
  case (Cons c cs)
  obtain r g' where s: "session_loop st c (session_count st c) tt g = (r, g')"
    by (cases "session_loop st c (session_count st c) tt g")
  show ?case
  proof (cases r)
    case (Inl e')
    with Cons.prems s have "fst (session_loop st c (session_count st c) tt g) = Inl e"
      by simp
    then show ?thesis by (rule session_loop_error)
  next
    case (Inr tt1)
    with Cons.prems s have "fst (course_loop st cs tt1 g') = Inl e" by simp
    then show ?thesis by (rule Cons.IH)
  qed
qed

lemma session_loop_pref_slots:
  assumes "slots st = []"
  shows "fst (session_loop st c n tt g) = Inr tt' \<Longrightarrow>
         \<forall>a \<in> set tt'. a \<in> set tt \<or>
            (\<exists>s r. a = (c, s, r) \<and> s \<in> set (pref_list st (get_str (faculty st) c)))"
proof (induction n arbitrary: tt g)
  case 0
  then show ?case by simp
next
  case (Suc n)
  obtain u g' where rr: "random_random g = (u, g')" by (cases "random_random g")
  define slot where
    "slot = pref_list st (get_str (faculty st) c) !
              (shd g' mod length (pref_list st (get_str (faculty st) c)))"
  define room where "room = rooms st ! (shd (stl g') mod length (rooms st))"
  from Suc.prems have ne: "pref_list st (get_str (faculty st) c) \<noteq> []"
    and r: "fst (session_loop st c n (tt @ [(c, slot, room)]) (stl (stl g'))) = Inr tt'"
    by (auto simp: Let_def random_choice_def assms rr slot_def room_def
             split: sum.splits if_splits)
  from ne have p: "slot \<in> set (pref_list st (get_str (faculty st) c))"
    by (simp add: slot_def)
  from Suc.IH [OF r] p show ?case by auto
qed

lemma course_loop_pref_slots:
  assumes "slots st = []"
  shows "fst (course_loop st cs tt g) = Inr tt' \<Longrightarrow>
         \<forall>(c, s, r) \<in> set tt'. (c, s, r) \<in> set tt \<or>
            s \<in> set (pref_list st (get_str (faculty st) c))"
proof (induction cs arbitrary: tt g)
  case Nil
  then show ?case by auto
next
  case (Cons c cs)
  obtain r g' where s: "session_loop st c (session_count st c) tt g = (r, g')"
    by (cases "session_loop st c (session_count st c) tt g")
  show ?case
  proof (cases r)
    case (Inl e)
    with Cons.prems s show ?thesis by simp
  next
    case (Inr tt1)
    with s have "fst (session_loop st c (session_count st c) tt g) = Inr tt1" by simp
    from session_loop_pref_slots [OF assms this]
    have 1: "\<forall>a \<in> set tt1. a \<in> set tt \<or>
            (\<exists>s r. a = (c, s, r) \<and> s \<in> set (pref_list st (get_str (faculty st) c)))" .
    from Cons.prems s Inr have "fst (course_loop st cs tt1 g') = Inr tt'" by simp
    from Cons.IH [OF this]
    have 2: "\<forall>(c, s, r) \<in> set tt'. (c, s, r) \<in> set tt1 \<or>
            s \<in> set (pref_list st (get_str (faculty st) c))" .
    show ?thesis
    proof (intro ballI, clarify)
      fix c' s' r'
      assume m: "(c', s', r') \<in> set tt'" and n: "s' \<notin> set (pref_list st (get_str (faculty st) c'))"
      with 2 have "(c', s', r') \<in> set tt1" by auto
      with 1 n show "(c', s', r') \<in> set tt" by auto
    qed
  qed
qed

text \<open>
  C3, as amended. With an empty room or slot catalog \<^verbatim>\<open>generate_timetable\<close> reports the
  missing inputs and returns, with the globals and the random source untouched and no
  solution generated. \<^verbatim>\<open>random_solution\<close> has no check of its own. It raises nothing
  but \<^verbatim>\<open>IndexError\<close>, and that only when the room or the slot catalog is empty. With
  an empty room catalog it returns the empty solution when no session is required and
  raises otherwise. With an empty slot catalog every solution it returns takes each
  slot from the preferences of the course's teacher.
\<close>

theorem empty_catalog_guard:
  "(rooms st = [] \<or> slots st = [] \<longrightarrow>
      generate_timetable fa st g = (Inr InputsMissing, st, g)) \<and>
   (\<forall>e. fst (random_solution st g) = Inl e \<longrightarrow>
      e = IndexError \<and> (rooms st = [] \<or> slots st = [])) \<and>
   (rooms st = [] \<longrightarrow>
      fst (random_solution st g) =
        (if \<forall>c \<in> set (courses st). session_count st c = 0 then Inr [] else Inl IndexError)) \<and>
   (slots st = [] \<longrightarrow>
      (\<forall>tt. fst (random_solution st g) = Inr tt \<longrightarrow>
         (\<forall>(c, s, r) \<in> set tt. s \<in> set (pref_list st (get_str (faculty st) c)))))"
proof -
  have 1: "rooms st = [] \<or> slots st = [] \<longrightarrow>
      generate_timetable fa st g = (Inr InputsMissing, st, g)"
    by (simp add: generate_timetable_def)
  have 2: "\<forall>e. fst (random_solution st g) = Inl e \<longrightarrow>
      e = IndexError \<and> (rooms st = [] \<or> slots st = [])"
    using course_loop_error [of st "courses st" "[]" g] by (simp add: random_solution_def)
  have 3: "rooms st = [] \<longrightarrow>
      fst (random_solution st g) =
        (if \<forall>c \<in> set (courses st). session_count st c = 0 then Inr [] else Inl IndexError)"
    using course_loop_no_rooms [of st "courses st" "[]" g] by (simp add: random_solution_def)
  have 4: "slots st = [] \<longrightarrow>
      (\<forall>tt. fst (random_solution st g) = Inr tt \<longrightarrow>
         (\<forall>(c, s, r) \<in> set tt. s \<in> set (pref_list st (get_str (faculty st) c))))"
    using course_loop_pref_slots [of st "courses st" "[]" g]
    by (simp add: random_solution_def)
  from 1 2 3 4 show ?thesis by blast
qed

theorem empty_catalog_guard_witness:
  "rooms (one_course\<lparr>rooms := []\<rparr>) = [] \<and>
   generate_timetable exact_arith (one_course\<lparr>rooms := []\<rparr>) (5 ## sconst 0) =
     (Inr InputsMissing, one_course\<lparr>rooms := []\<rparr>, 5 ## sconst 0) \<and>
   fst (random_solution (one_course\<lparr>rooms := []\<rparr>) (5 ## sconst 0)) = Inl IndexError \<and>
   slots (preferring\<lparr>slots := []\<rparr>) = [] \<and>
   generate_timetable exact_arith (preferring\<lparr>slots := []\<rparr>) (sconst 0) =
     (Inr InputsMissing, preferring\<lparr>slots := []\<rparr>, sconst 0) \<and>
   fst (random_solution (preferring\<lparr>slots := []\<rparr>) (sconst 0)) =
     Inr [(''A'', ''Tue 09:00-10:00'', ''R'')] \<and>
   ''Tue 09:00-10:00'' \<in> set (pref_list (preferring\<lparr>slots := []\<rparr>)
                                 (get_str (faculty (preferring\<lparr>slots := []\<rparr>)) ''A''))"
proof -
  have r: "rooms (one_course\<lparr>rooms := []\<rparr>) = []" by simp
  have c: "\<not> (\<forall>c \<in> set (courses (one_course\<lparr>rooms := []\<rparr>)).
               session_count (one_course\<lparr>rooms := []\<rparr>) c = 0)"
    by (simp add: one_course_def initial_globals_def session_count_def)
  have s: "slots (preferring\<lparr>slots := []\<rparr>) = []" by simp
  have e: "fst (random_solution (preferring\<lparr>slots := []\<rparr>) (sconst 0)) =
     Inr [(''A'', ''Tue 09:00-10:00'', ''R'')]"
    by (simp add: random_solution_def preferring_def one_course_def initial_globals_def
          session_count_def random_defs float_defs pref_list_def get_str_def Let_def)
  from empty_catalog_guard [of "one_course\<lparr>rooms := []\<rparr>" exact_arith "5 ## sconst 0"]
       empty_catalog_guard [of "preferring\<lparr>slots := []\<rparr>" exact_arith "sconst 0"] r c s e
  show ?thesis by simp
qed

text \<open>C3 as stated fails. With both catalogs empty and no course the generator returns a
  solution. With one course and no room it draws the slot, consuming the first number
  of the source, and only then raises, and what it raises is \<^verbatim>\<open>IndexError\<close>. With no
  slot in the catalog but a preference it returns a solution of one assignment.\<close>

theorem random_solution_empty_catalog_counterexample:
  "rooms initial_globals = [] \<and> slots initial_globals = [] \<and>
   random_solution initial_globals (5 ## sconst 0) = (Inr [], 5 ## sconst 0) \<and>
   random_solution (one_course\<lparr>rooms := []\<rparr>) (5 ## sconst 0) = (Inl IndexError, sconst 0) \<and>
   random_solution (preferring\<lparr>slots := []\<rparr>) (sconst 0) =
     (Inr [(''A'', ''Tue 09:00-10:00'', ''R'')], sconst 0)"
  by (simp add: random_solution_def preferring_def one_course_def initial_globals_def
        session_count_def random_defs float_defs pref_list_def get_str_def Let_def)

section \<open>The neighbourhood operator\<close>

lemma heap_set_length: "length (heap_set h p i v) = length h"
  by (simp add: heap_set_def)

lemma heap_set_other: "a \<noteq> p \<Longrightarrow> heap_set h p i v ! a = h ! a"
  by (simp add: heap_set_def)

lemma heap_set_same: "p < length h \<Longrightarrow> heap_set h p i v ! p = (h ! p)[i := v]"
  by (simp add: heap_set_def)

lemma random_choice_Inr: "random_choice xs g = (Inr x, g') \<Longrightarrow> x \<in> set xs"
  by (auto simp: random_choice_def split: if_splits)

lemma random_choice_Inl: "random_choice xs g = (Inl e, g') \<Longrightarrow> e = IndexError \<and> xs = []"
  by (auto simp: random_choice_def split: if_splits)

lemma random_randrange_one: "random_randrange (Suc 0) g = (Inr 0, stl g)"
  by (simp add: random_randrange_def)

lemma neighbor_solution_frame_aux:
  "case neighbor_solution st h timetable g of
     (res, h', g') \<Rightarrow>
        length h \<le> length h' \<and> (\<forall>a < length h. h' ! a = h ! a) \<and>
        (\<forall>p. res = Inr p \<longrightarrow> length h \<le> p \<and> p < length h')"
  unfolding neighbor_solution_def heap_new_def
  by (auto simp: Let_def heap_set_length heap_set_other nth_append
           split: prod.splits sum.splits if_splits)


lemma neighbor_solution_length:
  "timetable < length h \<Longrightarrow> neighbor_solution st h timetable g = (Inr p, h', g') \<Longrightarrow>
   length (h' ! p) = length (h ! timetable)"
  unfolding neighbor_solution_def heap_new_def
  by (auto simp: Let_def heap_set_def nth_append split: prod.splits sum.splits if_splits)

lemma neighbor_value_length:
  "fst (neighbor_value st tt g) = Inr tt' \<Longrightarrow> length tt' = length tt"
  using neighbor_solution_length [of 0 "[tt]" st g]
  by (auto simp: neighbor_value_def split: prod.splits sum.splits)

text \<open>
  C9. Whatever the operator does, and also when it raises, the list object it was given
  holds after the call exactly the assignments it held before, and so does every other
  object that existed; a result is a new object, different from the argument.
\<close>

theorem neighbor_solution_frame:
  assumes "timetable < length h"
  shows "case neighbor_solution st h timetable g of
           (res, h', g') \<Rightarrow>
              h' ! timetable = h ! timetable \<and>
              length h \<le> length h' \<and> (\<forall>a < length h. h' ! a = h ! a) \<and>
              (\<forall>p. res = Inr p \<longrightarrow> p \<noteq> timetable \<and> p < length h')"
  using neighbor_solution_frame_aux [where st = st and h = h and timetable = timetable and g = g] assms
  by (auto split: prod.splits)

theorem neighbor_solution_frame_witness:
  "(0::nat) < length [[(''A'', ''Tue 10:00-11:00'', ''R'')]] \<and>
   neighbor_solution one_course [[(''A'', ''Tue 10:00-11:00'', ''R'')]] 0 (sconst 0) =
     (Inr 1, [[(''A'', ''Tue 10:00-11:00'', ''R'')], [(''A'', ''Mon 09:00-10:00'', ''R'')]],
      sconst 0)"
proof -
  have l: "(0::nat) < length [[(''A'', ''Tue 10:00-11:00'', ''R'')]]" by simp
  have e: "neighbor_solution one_course [[(''A'', ''Tue 10:00-11:00'', ''R'')]] 0 (sconst 0) =
     (Inr 1, [[(''A'', ''Tue 10:00-11:00'', ''R'')], [(''A'', ''Mon 09:00-10:00'', ''R'')]],
      sconst 0)"
    by (simp add: neighbor_solution_def heap_new_def heap_set_def random_defs float_defs Let_def
          pref_list_def get_str_def one_course_def initial_globals_def)
  from neighbor_solution_frame [OF l, where st = one_course and g = "sconst 0"] l e show ?thesis by simp
qed

text \<open>
  C10. On a timetable of exactly one assignment the swap move is never taken. If the
  operator returns, the result has one assignment, of the same course. When the move
  draw is below 0.85, so also when it is below 0.45, the slot is redrawn from the slot
  catalog or the teacher's preferences and the room is kept or redrawn; otherwise the
  slot is kept and the room redrawn. Here 0.85 is the float the source compares with,
  \<open>float_0_85\<close>, and the draw is itself a float. The operator raises only
  \<^verbatim>\<open>IndexError\<close>, and only when the slot or the room catalog is empty.
\<close>

theorem neighbor_solution_single:
  assumes "timetable < length h" and "h ! timetable = [(c, s, r)]"
  shows "case neighbor_solution st h timetable g of
           (Inl e, h', g') \<Rightarrow> e = IndexError \<and> (slots st = [] \<or> rooms st = [])
         | (Inr p, h', g') \<Rightarrow>
             (\<exists>s' r'. h' ! p = [(c, s', r')] \<and>
                (fst (random_random g) < float_0_85 \<longrightarrow>
                   (s' \<in> set (slots st) \<or> s' \<in> set (pref_list st (get_str (faculty st) c))) \<and>
                   (r' = r \<or> r' \<in> set (rooms st))) \<and>
                (\<not> fst (random_random g) < float_0_85 \<longrightarrow> s' = s \<and> r' \<in> set (rooms st)))"
proof -
  obtain move g1 where m: "random_random g = (move, g1)" by (cases "random_random g")
  have ch: "random_choice xs gx = (if xs = [] then (Inl IndexError, gx)
              else (Inr (xs ! (shd gx mod length xs)), stl gx))" for xs :: "string list" and gx
    by (simp add: random_choice_def)
  have mem: "xs \<noteq> [] \<Longrightarrow> xs ! (k mod length xs) \<in> set xs" for xs :: "string list" and k
    by simp
  show ?thesis
  proof (cases "move < float_0_85")
    case True
    show ?thesis
      using assms True mem [of "slots st"] mem [of "rooms st"]
        mem [of "pref_list st (get_str (faculty st) c)"]
      by (simp add: neighbor_solution_def heap_new_def m Let_def random_randrange_one ch
            heap_set_def split: prod.split)
  next
    case False
    show ?thesis
      using assms False mem [of "rooms st"]
      by (simp add: neighbor_solution_def heap_new_def m Let_def random_randrange_one ch
            heap_set_def split: prod.split)
  qed
qed

theorem neighbor_solution_single_witness:
  "(0::nat) < length [[(''A'', ''Tue 10:00-11:00'', ''Q'')]] \<and>
   [[(''A'', ''Tue 10:00-11:00'', ''Q'')]] ! 0 = [(''A'', ''Tue 10:00-11:00'', ''Q'')] \<and>
   fst (random_random (sconst 0)) < float_0_45 \<and>
   neighbor_solution one_course [[(''A'', ''Tue 10:00-11:00'', ''Q'')]] 0 (sconst 0) =
     (Inr 1, [[(''A'', ''Tue 10:00-11:00'', ''Q'')], [(''A'', ''Mon 09:00-10:00'', ''Q'')]],
      sconst 0) \<and>
   fst (random_random (7656119366529843 ## sconst 0)) = float_0_85 \<and>
   neighbor_solution one_course [[(''A'', ''Tue 10:00-11:00'', ''Q'')]] 0
       (7656119366529843 ## sconst 0) =
     (Inr 1, [[(''A'', ''Tue 10:00-11:00'', ''Q'')], [(''A'', ''Tue 10:00-11:00'', ''R'')]],
      sconst 0) \<and>
   fst (random_random (7656119366529842 ## sconst 0)) < float_0_85 \<and>
   neighbor_solution one_course [[(''A'', ''Tue 10:00-11:00'', ''Q'')]] 0
       (7656119366529842 ## sconst 0) =
     (Inr 1, [[(''A'', ''Tue 10:00-11:00'', ''Q'')], [(''A'', ''Mon 09:00-10:00'', ''Q'')]],
      sconst 0)"
proof -
  have l: "(0::nat) < length [[(''A'', ''Tue 10:00-11:00'', ''Q'')]]"
    and n: "[[(''A'', ''Tue 10:00-11:00'', ''Q'')]] ! 0 = [(''A'', ''Tue 10:00-11:00'', ''Q'')]"
    by simp_all
  have r1: "fst (random_random (sconst 0)) < float_0_45"
    by (simp add: random_random_def float_defs)
  have r2: "fst (random_random (7656119366529843 ## sconst 0)) = float_0_85"
    by (simp add: random_random_def float_defs)
  have r3: "fst (random_random (7656119366529842 ## sconst 0)) < float_0_85"
    by (simp add: random_random_def float_defs)
  have e1: "neighbor_solution one_course [[(''A'', ''Tue 10:00-11:00'', ''Q'')]] 0 (sconst 0) =
     (Inr 1, [[(''A'', ''Tue 10:00-11:00'', ''Q'')], [(''A'', ''Mon 09:00-10:00'', ''Q'')]],
      sconst 0)"
    by (simp add: neighbor_solution_def heap_new_def heap_set_def random_defs float_defs Let_def
          pref_list_def get_str_def one_course_def initial_globals_def)
  have e2: "neighbor_solution one_course [[(''A'', ''Tue 10:00-11:00'', ''Q'')]] 0
              (7656119366529843 ## sconst 0) =
     (Inr 1, [[(''A'', ''Tue 10:00-11:00'', ''Q'')], [(''A'', ''Tue 10:00-11:00'', ''R'')]],
      sconst 0)"
    by (simp add: neighbor_solution_def heap_new_def heap_set_def random_defs float_defs Let_def
          pref_list_def get_str_def one_course_def initial_globals_def)
  have e3: "neighbor_solution one_course [[(''A'', ''Tue 10:00-11:00'', ''Q'')]] 0
              (7656119366529842 ## sconst 0) =
     (Inr 1, [[(''A'', ''Tue 10:00-11:00'', ''Q'')], [(''A'', ''Mon 09:00-10:00'', ''Q'')]],
      sconst 0)"
    by (simp add: neighbor_solution_def heap_new_def heap_set_def random_defs float_defs Let_def
          pref_list_def get_str_def one_course_def initial_globals_def)
  from neighbor_solution_single [OF l n, where st = one_course and g = "sconst 0"]
       neighbor_solution_single [OF l n, where st = one_course
         and g = "7656119366529843 ## sconst 0"]
       neighbor_solution_single [OF l n, where st = one_course
         and g = "7656119366529842 ## sconst 0"]
       l n r1 r2 r3 e1 e2 e3
  show ?thesis by simp
qed

section \<open>The annealing loop\<close>

lemma hist_inv_it: "hist_inv hist it bcost \<Longrightarrow> it = 1 + int (length (iter hist))"
  by (auto simp: hist_inv_def)

lemma hist_inv_step:
  assumes "hist_inv hist it bcost" and "b \<le> bcost"
  shows "hist_inv \<lparr>iter = iter hist @ [it], current_cost = current_cost hist @ [c],
                    best_cost = best_cost hist @ [b]\<rparr> (it + 1) b"
proof -
  from assms(1) have it: "1 \<le> it" and i: "iter hist = map int [1..<nat it]"
    and l: "length (best_cost hist) = length (iter hist)"
           "length (current_cost hist) = length (iter hist)"
    and s: "sorted_wrt (\<ge>) (best_cost hist)" and b: "\<forall>x \<in> set (best_cost hist). bcost \<le> x"
    by (simp_all add: hist_inv_def)
  from it have "nat (it + 1) = Suc (nat it)" by simp
  moreover from it have "1 \<le> nat it" by simp
  ultimately have "map int [1..<nat (it + 1)] = map int [1..<nat it] @ [it]"
    using it by simp
  with i it l s b assms(2) show ?thesis
    by (auto simp: hist_inv_def sorted_wrt_append)
qed

lemma sa_loop_inv:
  "hist_inv hist it bcost \<Longrightarrow>
   fst (sa_loop fa p n it st current ccost best bcost T hist g) = Inr (b', bc', h') \<Longrightarrow>
   \<exists>it'. hist_inv h' it' bc'"
proof (induction n arbitrary: it st current ccost best bcost T hist g)
  case 0
  then show ?case by auto
next
  case (Suc n)
  have step: "b \<le> bcost \<Longrightarrow>
     hist_inv \<lparr>iter = iter hist @ [it], current_cost = current_cost hist @ [c],
               best_cost = best_cost hist @ [b]\<rparr> (it + 1) b" for b c
    by (rule hist_inv_step [OF Suc.prems(1)])
  have stop: "b \<le> bcost \<Longrightarrow>
     \<exists>it'. hist_inv \<lparr>iter = iter hist @ [it], current_cost = current_cost hist @ [c],
               best_cost = best_cost hist @ [b]\<rparr> it' b" for b c
    using step by blast
  have keep: "\<exists>it'. hist_inv hist it' bcost" using Suc.prems(1) by blast
  from Suc.prems(2) Suc.prems(1) show ?case
    by (auto simp: Let_def split: if_splits prod.splits sum.splits
             elim!: Suc.IH [rotated] intro!: step stop keep)
qed

lemma hist_inv_monotone:
  assumes "hist_inv hist it bcost"
  shows "length (best_cost hist) = length (iter hist) \<and>
         (\<forall>a < length (iter hist). iter hist ! a = int a + 1) \<and>
         (\<forall>a < length (iter hist). \<forall>b < length (iter hist).
            iter hist ! a < iter hist ! b \<longrightarrow> best_cost hist ! b \<le> best_cost hist ! a) \<and>
         (\<forall>x \<in> set (best_cost hist). bcost \<le> x)"
proof -
  from assms have i: "iter hist = map int [1..<nat it]"
    and l: "length (best_cost hist) = length (iter hist)"
    and s: "sorted_wrt (\<ge>) (best_cost hist)" and b: "\<forall>x \<in> set (best_cost hist). bcost \<le> x"
    by (simp_all add: hist_inv_def)
  have n: "iter hist ! a = int a + 1" if "a < length (iter hist)" for a
    using that unfolding i by simp
  have m: "best_cost hist ! b \<le> best_cost hist ! a"
    if "a < length (iter hist)" "b < length (iter hist)" "iter hist ! a < iter hist ! b" for a b
  proof -
    from that n have "a < b" by simp
    with sorted_wrt_nth_less [OF s, of a b] that(2) l show ?thesis by simp
  qed
  from l n m b show ?thesis by blast
qed

lemma session_loop_numeral:
  "session_loop st c (numeral k) tt g = session_loop st c (Suc (pred_numeral k)) tt g"
  by (simp only: numeral_eq_Suc)

lemma sa_loop_numeral:
  "sa_loop fa p (numeral k) it st current ccost best bcost T hist g =
   sa_loop fa p (Suc (pred_numeral k)) it st current ccost best bcost T hist g"
  by (simp only: numeral_eq_Suc)

text \<open>
  C5. In the history of a run that returns, the entries are numbered 1, 2, ... in order,
  and of two entries the one with the larger iteration number has the smaller or equal
  best cost; the best cost returned is at most every best cost recorded. This holds
  whatever the float arithmetic computes.
\<close>

theorem best_cost_monotone:
  assumes "fst (simulated_annealing fa p st g) = Inr (best, bcost, hist)"
  shows "length (best_cost hist) = length (iter hist) \<and>
         (\<forall>a < length (iter hist). iter hist ! a = int a + 1) \<and>
         (\<forall>a < length (iter hist). \<forall>b < length (iter hist).
            iter hist ! a < iter hist ! b \<longrightarrow> best_cost hist ! b \<le> best_cost hist ! a) \<and>
         (\<forall>x \<in> set (best_cost hist). bcost \<le> x)"
proof -
  have init: "hist_inv \<lparr>iter = [], current_cost = [], best_cost = []\<rparr> 1 c" for c
    by (simp add: hist_inv_def)
  from assms obtain current g1 ccost st1 st2 g2 where
    "sa_loop fa p (nat (max_iter p)) 1 st1 current ccost current ccost (T0 p)
            \<lparr>iter = [], current_cost = [], best_cost = []\<rparr> g1 = (Inr (best, bcost, hist), st2, g2)"
    by (auto simp: simulated_annealing_def Let_def split: prod.splits sum.splits if_splits)
  then have "fst (sa_loop fa p (nat (max_iter p)) 1 st1 current ccost current ccost (T0 p)
            \<lparr>iter = [], current_cost = [], best_cost = []\<rparr> g1) = Inr (best, bcost, hist)"
    by simp
  from sa_loop_inv [OF init this] obtain it' where "hist_inv hist it' bcost" by blast
  then show ?thesis by (rule hist_inv_monotone)
qed

theorem best_cost_monotone_witness:
  "fst (simulated_annealing exact_arith short_run preferring
          ([2 ^ 53 - 1, 0, 0, 2 ^ 53 - 1, 0, 0, 0] @- sconst 0)) =
     Inr ([(''A'', ''Tue 09:00-10:00'', ''R'')], 0,
          \<lparr>iter = [1, 2], current_cost = [2, 0], best_cost = [2, 0]\<rparr>) \<and>
   [2, 0 :: int] ! 1 \<le> [2, 0] ! 0"
proof -
  have e: "fst (simulated_annealing exact_arith short_run preferring
          ([2 ^ 53 - 1, 0, 0, 2 ^ 53 - 1, 0, 0, 0] @- sconst 0)) =
     Inr ([(''A'', ''Tue 09:00-10:00'', ''R'')], 0,
          \<lparr>iter = [1, 2], current_cost = [2, 0], best_cost = [2, 0]\<rparr>)"
    by (simp add: simulated_annealing_def short_run_def preferring_def one_course_def
          initial_globals_def random_solution_def session_count_def random_defs
          neighbor_value_def neighbor_solution_def heap_new_def heap_set_def
          parse_defs cost_defs cost_step.simps Let_def sa_loop_numeral float_defs
          exact_arith_def)
  from best_cost_monotone [OF e] e show ?thesis by simp
qed

section \<open>The number of sessions\<close>

lemma neighbor_value_length_pair:
  "neighbor_value st tt g = (Inr tt', g') \<Longrightarrow> length tt' = length tt"
  using neighbor_value_length [of st tt g tt'] by simp

lemma sa_loop_preserves:
  assumes nb: "\<And>st tt g tt' g'. P tt \<Longrightarrow> neighbor_value st tt g = (Inr tt', g') \<Longrightarrow> P tt'"
  shows "P current \<Longrightarrow> P best \<Longrightarrow>
         fst (sa_loop fa p n it st current ccost best bcost T hist g) = Inr (b', bc', h') \<Longrightarrow>
         P b'"
proof (induction n arbitrary: it st current ccost best bcost T hist g)
  case 0
  then show ?case by auto
next
  case (Suc n)
  from Suc.prems(3) Suc.prems(1,2) show ?case
    by (auto simp: Let_def split: if_splits prod.splits sum.splits
             elim!: Suc.IH [rotated 2] intro: nb)
qed

lemma sa_loop_length:
  assumes "length current = k" and "length best = k"
    and "fst (sa_loop fa p n it st current ccost best bcost T hist g) = Inr (b', bc', h')"
  shows "length b' = k"
  using assms(1,2,3)
  by (rule sa_loop_preserves [where P = "\<lambda>x. length x = k", rotated])
     (simp add: neighbor_value_length_pair)

lemma simulated_annealing_length:
  assumes "fst (simulated_annealing fa p st g) = Inr (best, bcost, hist)"
  shows "length best = sum_list (map (session_count st) (courses st))"
proof -
  from assms obtain current g1 ccost st1 st2 g2 where
    r: "random_solution st g = (Inr current, g1)" and
    l: "sa_loop fa p (nat (max_iter p)) 1 st1 current ccost current ccost (T0 p)
            \<lparr>iter = [], current_cost = [], best_cost = []\<rparr> g1 = (Inr (best, bcost, hist), st2, g2)"
    by (auto simp: simulated_annealing_def Let_def split: prod.splits sum.splits if_splits)
  from r have c: "length current = sum_list (map (session_count st) (courses st))"
    using course_loop_length [of st "courses st" "[]" g current]
    by (simp add: random_solution_def)
  from l have "fst (sa_loop fa p (nat (max_iter p)) 1 st1 current ccost current ccost (T0 p)
            \<lparr>iter = [], current_cost = [], best_cost = []\<rparr> g1) = Inr (best, bcost, hist)"
    by simp
  from sa_loop_length [OF c c this] show ?thesis .
qed

lemma refresh_caches_config:
  "courses (refresh_caches st) = courses st \<and> requirements (refresh_caches st) = requirements st"
proof -
  have "same_but_slot_cache (st\<lparr>slot_parsed := Map.empty\<rparr>)
          (prime_slots (st\<lparr>slot_parsed := Map.empty\<rparr>) (slots st))"
    by (rule prime_slots_same)
  then show ?thesis
    by (simp add: refresh_caches_def Let_def same_but_slot_cache_def)
qed

lemma generate_timetable_length:
  assumes "fst (generate_timetable fa st g) = Inr (Generated (best, bcost, hist))"
  shows "length best = 2 * length (courses st)"
proof -
  define st2 where
    "st2 = refresh_caches
             (st\<lparr>requirements := (\<lambda>c. if c \<in> set (courses st) then Some 2 else None)\<rparr>)"
  from assms obtain init_sol init_cost st3 g1 p st4 g2 where
    cf: "cost_function st2 init_sol = (init_cost, st3)" and
    run: "simulated_annealing fa p st3 g1 = (Inr (best, bcost, hist), st4, g2)"
    by (auto simp: generate_timetable_def Let_def st2_def
             split: prod.splits sum.splits if_splits)
  from run have sa: "fst (simulated_annealing fa p st3 g1) = Inr (best, bcost, hist)"
    by simp
  have "same_but_slot_cache st2 st3" using cost_function_same [of st2 init_sol] cf by simp
  then have "courses st3 = courses st2" "requirements st3 = requirements st2"
    by (simp_all add: same_but_slot_cache_def)
  with refresh_caches_config
    [of "st\<lparr>requirements := (\<lambda>c. if c \<in> set (courses st) then Some 2 else None)\<rparr>"]
  have c: "courses st3 = courses st"
    and r: "requirements st3 = (\<lambda>c. if c \<in> set (courses st) then Some 2 else None)"
    by (simp_all add: st2_def)
  have "sum_list (map (session_count st3) cs) = 2 * length cs" if "set cs \<subseteq> set (courses st)" for cs
    using that by (induction cs) (auto simp: session_count_def r)
  from this [of "courses st"] simulated_annealing_length [OF sa] c
  show ?thesis by simp
qed

text \<open>
  C1, as amended. A solution returned by \<^verbatim>\<open>random_solution\<close> has as many assignments
  as the sum, over the course list, of \<^verbatim>\<open>requirements.get(course, 1)\<close>, a count below
  zero giving none: a course without an entry gets one session. The generator returns
  whenever the room and the slot catalogs are not empty. A timetable produced by
  \<^verbatim>\<open>generate_timetable\<close> has two assignments for every entry of the course list.
\<close>

theorem random_solution_length:
  "(\<forall>tt. fst (random_solution st g) = Inr tt \<longrightarrow>
      length tt = sum_list (map (session_count st) (courses st))) \<and>
   (rooms st \<noteq> [] \<and> slots st \<noteq> [] \<longrightarrow> (\<exists>tt. fst (random_solution st g) = Inr tt)) \<and>
   (\<forall>best bcost hist.
      fst (generate_timetable fa st g) = Inr (Generated (best, bcost, hist)) \<longrightarrow>
      length best = 2 * length (courses st))"
proof -
  have 1: "\<forall>tt. fst (random_solution st g) = Inr tt \<longrightarrow>
      length tt = sum_list (map (session_count st) (courses st))"
    using course_loop_length [of st "courses st" "[]" g] by (simp add: random_solution_def)
  have 2: "rooms st \<noteq> [] \<and> slots st \<noteq> [] \<longrightarrow> (\<exists>tt. fst (random_solution st g) = Inr tt)"
    using course_loop_returns [of st "courses st" "[]" g] by (simp add: random_solution_def)
  from 1 2 generate_timetable_length [of fa st g] show ?thesis by blast
qed

theorem random_solution_length_witness:
  "fst (random_solution one_course (sconst 0)) = Inr [(''A'', ''Mon 09:00-10:00'', ''R'')] \<and>
   length [(''A'', ''Mon 09:00-10:00'', ''R'')] =
     sum_list (map (session_count one_course) (courses one_course)) \<and>
   rooms one_course \<noteq> [] \<and> slots one_course \<noteq> [] \<and>
   fst (generate_timetable exact_arith two_slots ([0, 0, 1, 0, 0, 0, 1, 0] @- sconst 0)) =
     Inr (Generated ([(''A'', ''Mon 09:00-10:00'', ''R''), (''A'', ''Tue 09:00-10:00'', ''R'')], 0,
            \<lparr>iter = [1], current_cost = [0], best_cost = [0]\<rparr>)) \<and>
   length [(''A'', ''Mon 09:00-10:00'', ''R''), (''A'', ''Tue 09:00-10:00'', ''R'')] =
     2 * length (courses two_slots)"
proof -
  have r: "fst (random_solution one_course (sconst 0)) = Inr [(''A'', ''Mon 09:00-10:00'', ''R'')]"
    by (simp add: random_solution_def one_course_def initial_globals_def session_count_def
          random_defs pref_list_def get_str_def Let_def)
  have n: "rooms one_course \<noteq> []" "slots one_course \<noteq> []"
    by (simp_all add: one_course_def initial_globals_def)
  have first: "sa_loop fa p 120000 = sa_loop fa p (Suc 119999)" for fa p
    by simp
  have e: "fst (generate_timetable exact_arith two_slots ([0, 0, 1, 0, 0, 0, 1, 0] @- sconst 0)) =
     Inr (Generated ([(''A'', ''Mon 09:00-10:00'', ''R''), (''A'', ''Tue 09:00-10:00'', ''R'')], 0,
            \<lparr>iter = [1], current_cost = [0], best_cost = [0]\<rparr>))"
    by (simp add: generate_timetable_def simulated_annealing_def two_slots_def one_course_def
          initial_globals_def refresh_caches_def random_solution_def session_count_def
          random_defs neighbor_value_def neighbor_solution_def heap_new_def heap_set_def
          parse_defs cost_defs cost_step.simps Let_def first session_loop_numeral
          float_defs exact_arith_def del: Suc_numeral)
  from random_solution_length [of one_course "sconst 0" exact_arith]
       random_solution_length [of two_slots "[0, 0, 1, 0, 0, 0, 1, 0] @- sconst 0" exact_arith]
       r n e
  show ?thesis by simp
qed

text \<open>C1 as stated fails: one course without an entry gets one session, where the sum
  with default 2 is 2.\<close>

theorem random_solution_default_counterexample:
  "fst (random_solution one_course (sconst 0)) = Inr [(''A'', ''Mon 09:00-10:00'', ''R'')] \<and>
   requirements one_course ''A'' = None \<and> spec_cardinality one_course = 2"
  by (simp add: random_solution_def one_course_def initial_globals_def session_count_def
        random_defs pref_list_def get_str_def Let_def spec_cardinality_def)

end
